theory Spec2Isabelle
  imports Main "HOL-Library.Word"
begin

section \<open>Values of the JavaScript runtime\<close>

text \<open>
  \<^verbatim>\<open>crypto.js\<close> is a single class, \<^verbatim>\<open>CryptoManager\<close>, written against the browser:
  strings are sequences of UTF-16 code units, a \<^verbatim>\<open>Uint8Array\<close> is a sequence of bytes,
  \<^verbatim>\<open>localStorage\<close> maps strings to strings, \<^verbatim>\<open>crypto.getRandomValues\<close> hands out
  random bytes, and \<^verbatim>\<open>crypto.subtle\<close> provides PBKDF2 and AES-GCM.

  This first part gives the functions of the runtime that the class calls, each as its
  standard defines it (ECMAScript, the Encoding standard, the HTML standard); the class
  itself follows in the second part.
\<close>

type_synonym byte = "8 word"
type_synonym jsstring = "16 word list"

text \<open>A string literal of the source, as code units.\<close>

definition str :: "string \<Rightarrow> jsstring" where
  "str s = map (\<lambda>c. of_nat (of_char c)) s"

text \<open>
  Truthiness of a value that is a string or \<^verbatim>\<open>null\<close>/\<^verbatim>\<open>undefined\<close>: \<^verbatim>\<open>if (x)\<close> holds
  for a non-empty string only.
\<close>

fun truthy :: "jsstring option \<Rightarrow> bool" where
  "truthy None = False"
| "truthy (Some s) = (s \<noteq> [])"

subsection \<open>The browser: localStorage and the random source\<close>

text \<open>
  \<^verbatim>\<open>randomTape\<close> is the sequence of bytes the random source will hand out and
  \<^verbatim>\<open>randomPos\<close> how many it has handed out so far. The storage has no quota.
\<close>

record browser =
  localStorage :: "jsstring \<rightharpoonup> jsstring"
  randomTape :: "nat \<Rightarrow> byte"
  randomPos :: nat

definition getItem :: "browser \<Rightarrow> jsstring \<Rightarrow> jsstring option" where
  "getItem b k = localStorage b k"

definition setItem :: "jsstring \<Rightarrow> jsstring \<Rightarrow> browser \<Rightarrow> browser" where
  "setItem k v b = b\<lparr>localStorage := (localStorage b)(k \<mapsto> v)\<rparr>"

definition removeItem :: "jsstring \<Rightarrow> browser \<Rightarrow> browser" where
  "removeItem k b = b\<lparr>localStorage := (localStorage b)(k := None)\<rparr>"

text \<open>\<^verbatim>\<open>crypto.getRandomValues(new Uint8Array(n))\<close>\<close>

definition getRandomValues :: "nat \<Rightarrow> browser \<Rightarrow> byte list \<times> browser" where
  "getRandomValues n b =
     (map (randomTape b) [randomPos b ..< randomPos b + n],
      b\<lparr>randomPos := randomPos b + n\<rparr>)"

subsection \<open>TextEncoder and TextDecoder (UTF-8)\<close>

text \<open>
  \<^verbatim>\<open>new TextEncoder().encode(s)\<close> first reads the code units as Unicode scalar values,
  an unpaired surrogate becoming U+FFFD, and then writes each one in UTF-8.
\<close>

fun scalarValues :: "jsstring \<Rightarrow> nat list" where
  "scalarValues [] = []"
| "scalarValues [c] =
     (if 0xD800 \<le> unat c \<and> unat c \<le> 0xDFFF then [0xFFFD] else [unat c])"
| "scalarValues (c # d # ds) =
     (if 0xD800 \<le> unat c \<and> unat c \<le> 0xDBFF then
        (if 0xDC00 \<le> unat d \<and> unat d \<le> 0xDFFF
         then (0x10000 + (unat c - 0xD800) * 0x400 + (unat d - 0xDC00)) # scalarValues ds
         else 0xFFFD # scalarValues (d # ds))
      else if 0xDC00 \<le> unat c \<and> unat c \<le> 0xDFFF then 0xFFFD # scalarValues (d # ds)
      else unat c # scalarValues (d # ds))"

definition utf8Bytes :: "nat \<Rightarrow> byte list" where
  "utf8Bytes cp =
     (if cp < 0x80 then [of_nat cp]
      else if cp < 0x800 then [of_nat (0xC0 + cp div 64), of_nat (0x80 + cp mod 64)]
      else if cp < 0x10000 then
        [of_nat (0xE0 + cp div 4096), of_nat (0x80 + cp div 64 mod 64),
         of_nat (0x80 + cp mod 64)]
      else
        [of_nat (0xF0 + cp div 262144), of_nat (0x80 + cp div 4096 mod 64),
         of_nat (0x80 + cp div 64 mod 64), of_nat (0x80 + cp mod 64)])"

definition TextEncoder_encode :: "jsstring \<Rightarrow> byte list" where
  "TextEncoder_encode s = concat (map utf8Bytes (scalarValues s))"

text \<open>
  \<^verbatim>\<open>new TextDecoder().decode(bytes)\<close> is the UTF-8 decoder of the Encoding standard
  in its default mode: it never throws, every malformed sequence becomes U+FFFD (the
  byte that broke the sequence is read again as the start of the next one), and one
  leading byte order mark U+FEFF is dropped from the output.

  The decoder state is the code point collected so far, the number of continuation
  bytes still needed, and the bounds allowed for the next byte.
\<close>

datatype lead = Emit nat | Need nat nat nat nat

definition leadByte :: "nat \<Rightarrow> lead" where
  "leadByte b =
     (if b \<le> 0x7F then Emit b
      else if 0xC2 \<le> b \<and> b \<le> 0xDF then Need (b - 0xC0) 1 0x80 0xBF
      else if 0xE0 \<le> b \<and> b \<le> 0xEF then
        Need (b - 0xE0) 2 (if b = 0xE0 then 0xA0 else 0x80) (if b = 0xED then 0x9F else 0xBF)
      else if 0xF0 \<le> b \<and> b \<le> 0xF4 then
        Need (b - 0xF0) 3 (if b = 0xF0 then 0x90 else 0x80) (if b = 0xF4 then 0x8F else 0xBF)
      else Emit 0xFFFD)"

fun utf8Decode :: "nat \<Rightarrow> nat \<Rightarrow> nat \<Rightarrow> nat \<Rightarrow> byte list \<Rightarrow> nat list" where
  "utf8Decode cp needed lo hi [] = (if needed = 0 then [] else [0xFFFD])"
| "utf8Decode cp needed lo hi (b # bs) =
     (if needed = 0 then
        (case leadByte (unat b) of
           Emit c \<Rightarrow> c # utf8Decode 0 0 0x80 0xBF bs
         | Need cp' n' lo' hi' \<Rightarrow> utf8Decode cp' n' lo' hi' bs)
      else if lo \<le> unat b \<and> unat b \<le> hi then
        (if needed = 1 then (cp * 64 + (unat b - 0x80)) # utf8Decode 0 0 0x80 0xBF bs
         else utf8Decode (cp * 64 + (unat b - 0x80)) (needed - 1) 0x80 0xBF bs)
      else
        0xFFFD #
        (case leadByte (unat b) of
           Emit c \<Rightarrow> c # utf8Decode 0 0 0x80 0xBF bs
         | Need cp' n' lo' hi' \<Rightarrow> utf8Decode cp' n' lo' hi' bs))"

definition codeUnits :: "nat \<Rightarrow> jsstring" where
  "codeUnits cp =
     (if cp < 0x10000 then [of_nat cp]
      else [of_nat (0xD800 + (cp - 0x10000) div 0x400),
            of_nat (0xDC00 + (cp - 0x10000) mod 0x400)])"

definition stripBOM :: "nat list \<Rightarrow> nat list" where
  "stripBOM cps = (case cps of [] \<Rightarrow> [] | c # cs \<Rightarrow> if c = 0xFEFF then cs else c # cs)"

definition TextDecoder_decode :: "byte list \<Rightarrow> jsstring" where
  "TextDecoder_decode bs = concat (map codeUnits (stripBOM (utf8Decode 0 0 0x80 0xBF bs)))"

subsection \<open>Hexadecimal text\<close>

text \<open>\<^verbatim>\<open>b.toString(16).padStart(2, '0')\<close> for a byte \<^verbatim>\<open>b\<close>: two lower-case digits.\<close>

definition hexDigit :: "nat \<Rightarrow> 16 word" where
  "hexDigit d = (if d < 10 then of_nat (48 + d) else of_nat (87 + d))"

definition toHex2 :: "byte \<Rightarrow> jsstring" where
  "toHex2 b = [hexDigit (unat b div 16), hexDigit (unat b mod 16)]"

text \<open>\<^verbatim>\<open>Array.from(saltArray).map(b => b.toString(16).padStart(2, '0')).join('')\<close>\<close>

definition hexString :: "byte list \<Rightarrow> jsstring" where
  "hexString bs = concat (map toHex2 bs)"

text \<open>
  \<^verbatim>\<open>salt.match(/.{1,2}/g)\<close>: the successive matches of one or two code units, where
  \<^verbatim>\<open>.\<close> matches every code unit but the line terminators; \<^verbatim>\<open>null\<close> when nothing
  matches.
\<close>

definition lineTerminator :: "16 word \<Rightarrow> bool" where
  "lineTerminator c = (c = 0x0A \<or> c = 0x0D \<or> c = 0x2028 \<or> c = 0x2029)"

fun dotPairs :: "jsstring \<Rightarrow> jsstring list" where
  "dotPairs [] = []"
| "dotPairs [c] = (if lineTerminator c then [] else [[c]])"
| "dotPairs (c # d # ds) =
     (if lineTerminator c then dotPairs (d # ds)
      else if lineTerminator d then [c] # dotPairs ds
      else [c, d] # dotPairs ds)"

definition matchPairs :: "jsstring \<Rightarrow> jsstring list option" where
  "matchPairs s = (if dotPairs s = [] then None else Some (dotPairs s))"

text \<open>
  \<^verbatim>\<open>parseInt(s, 16)\<close>: leading white space is skipped, then an optional sign, then an
  optional \<^verbatim>\<open>0x\<close>, then the longest run of hexadecimal digits; \<^verbatim>\<open>NaN\<close> (here
  \<^verbatim>\<open>None\<close>) when that run is empty. The class calls it on strings of one or two
  code units, where the value is exact.
\<close>

definition whiteSpace :: "16 word \<Rightarrow> bool" where
  "whiteSpace c =
     (c \<in> {0x09, 0x0A, 0x0B, 0x0C, 0x0D, 0x20, 0xA0, 0x1680, 0x2028, 0x2029, 0x202F,
            0x205F, 0x3000, 0xFEFF} \<or> (0x2000 \<le> c \<and> c \<le> 0x200A))"

definition hexValue :: "16 word \<Rightarrow> nat option" where
  "hexValue c =
     (if 48 \<le> unat c \<and> unat c \<le> 57 then Some (unat c - 48)
      else if 97 \<le> unat c \<and> unat c \<le> 102 then Some (unat c - 87)
      else if 65 \<le> unat c \<and> unat c \<le> 70 then Some (unat c - 55)
      else None)"

fun hexRun :: "nat \<Rightarrow> jsstring \<Rightarrow> nat" where
  "hexRun acc [] = acc"
| "hexRun acc (c # cs) =
     (case hexValue c of None \<Rightarrow> acc | Some v \<Rightarrow> hexRun (acc * 16 + v) cs)"

definition stripSign :: "jsstring \<Rightarrow> int \<times> jsstring" where
  "stripSign s =
     (case s of
        [] \<Rightarrow> (1, [])
      | c # cs \<Rightarrow> if c = 0x2D then (- 1, cs) else if c = 0x2B then (1, cs) else (1, c # cs))"

definition stripPrefix0x :: "jsstring \<Rightarrow> jsstring" where
  "stripPrefix0x s =
     (case s of
        c # d # ds \<Rightarrow> if c = 0x30 \<and> (d = 0x78 \<or> d = 0x58) then ds else s
      | _ \<Rightarrow> s)"

definition parseInt16 :: "jsstring \<Rightarrow> int option" where
  "parseInt16 s =
     (let (sign, t) = stripSign (dropWhile whiteSpace s);
          z = stripPrefix0x t
      in case z of
           [] \<Rightarrow> None
         | c # cs \<Rightarrow> if hexValue c = None then None else Some (sign * int (hexRun 0 z)))"

text \<open>
  Storing a number in a \<^verbatim>\<open>Uint8Array\<close>: \<^verbatim>\<open>NaN\<close> becomes 0, every other value is
  taken modulo 256.
\<close>

definition toUint8 :: "int option \<Rightarrow> byte" where
  "toUint8 v = (case v of None \<Rightarrow> 0 | Some i \<Rightarrow> of_int i)"

subsection \<open>Binary strings and base64\<close>

text \<open>\<^verbatim>\<open>String.fromCharCode.apply(null, bytes)\<close>: one code unit per byte.\<close>

definition fromCharCode :: "byte list \<Rightarrow> jsstring" where
  "fromCharCode bs = map ucast bs"

text \<open>
  \<^verbatim>\<open>new Uint8Array(s.split('').map(char => char.charCodeAt(0)))\<close>: one byte per code
  unit, modulo 256.
\<close>

definition charCodes :: "jsstring \<Rightarrow> byte list" where
  "charCodes s = map ucast s"

text \<open>The base64 alphabet, as character codes.\<close>

definition b64Char :: "nat \<Rightarrow> nat" where
  "b64Char i =
     (if i < 26 then 65 + i else if i < 52 then 71 + i else if i < 62 then i - 4
      else if i = 62 then 43 else 47)"

definition b64Value :: "nat \<Rightarrow> nat option" where
  "b64Value c =
     (if 65 \<le> c \<and> c \<le> 90 then Some (c - 65)
      else if 97 \<le> c \<and> c \<le> 122 then Some (c - 71)
      else if 48 \<le> c \<and> c \<le> 57 then Some (c + 4)
      else if c = 43 then Some 62
      else if c = 47 then Some 63
      else None)"

text \<open>Three bytes give four characters; a last group of one or two bytes gives two or three.\<close>

fun b64Encode :: "nat list \<Rightarrow> nat list" where
  "b64Encode [] = []"
| "b64Encode [x] = [b64Char (x div 4), b64Char (x mod 4 * 16)]"
| "b64Encode [x, y] =
     [b64Char (x div 4), b64Char (x mod 4 * 16 + y div 16), b64Char (y mod 16 * 4)]"
| "b64Encode (x # y # z # bs) =
     [b64Char (x div 4), b64Char (x mod 4 * 16 + y div 16),
      b64Char (y mod 16 * 4 + z div 64), b64Char (z mod 64)] @ b64Encode bs"

definition b64Padding :: "nat \<Rightarrow> nat list" where
  "b64Padding n = replicate ((3 - n mod 3) mod 3) 61"

text \<open>
  \<^verbatim>\<open>btoa(s)\<close> throws when a code unit of \<^verbatim>\<open>s\<close> is above 255; otherwise it is the
  padded base64 text of the bytes.
\<close>

definition btoa :: "jsstring \<Rightarrow> jsstring option" where
  "btoa s =
     (if \<exists>c \<in> set s. 255 < unat c then None
      else Some (map of_nat (b64Encode (map unat s) @ b64Padding (length s))))"

text \<open>
  \<^verbatim>\<open>atob(s)\<close> is the forgiving base64 decoder of the HTML standard: ASCII white space is
  removed; when the length is then a multiple of four, one or two \<^verbatim>\<open>=\<close> at the end are
  removed; a length of 1 modulo 4, or a character outside the alphabet, makes it throw;
  the bits left over by a last group of two or three characters are dropped.
\<close>

definition asciiWhitespace :: "nat \<Rightarrow> bool" where
  "asciiWhitespace c = (c = 9 \<or> c = 10 \<or> c = 12 \<or> c = 13 \<or> c = 32)"

definition stripPadding :: "nat list \<Rightarrow> nat list" where
  "stripPadding s =
     (if length s mod 4 = 0 \<and> s \<noteq> [] \<and> last s = 61 then
        (if butlast s \<noteq> [] \<and> last (butlast s) = 61 then butlast (butlast s) else butlast s)
      else s)"

fun b64Decode :: "nat list \<Rightarrow> nat list option" where
  "b64Decode [] = Some []"
| "b64Decode [a] = None"
| "b64Decode [a, b] =
     (case (b64Value a, b64Value b) of
        (Some p, Some q) \<Rightarrow> Some [p * 4 + q div 16]
      | _ \<Rightarrow> None)"
| "b64Decode [a, b, c] =
     (case (b64Value a, b64Value b, b64Value c) of
        (Some p, Some q, Some r) \<Rightarrow> Some [p * 4 + q div 16, q mod 16 * 16 + r div 4]
      | _ \<Rightarrow> None)"
| "b64Decode (a # b # c # d # cs) =
     (case (b64Value a, b64Value b, b64Value c, b64Value d) of
        (Some p, Some q, Some r, Some t) \<Rightarrow>
          (case b64Decode cs of
             None \<Rightarrow> None
           | Some bs \<Rightarrow> Some ((p * 4 + q div 16) # (q mod 16 * 16 + r div 4) # (r mod 4 * 64 + t) # bs))
      | _ \<Rightarrow> None)"

definition atob :: "jsstring \<Rightarrow> jsstring option" where
  "atob s =
     map_option (map of_nat)
       (b64Decode (stripPadding (filter (\<lambda>c. \<not> asciiWhitespace c) (map unat s))))"

section \<open>CryptoManager\<close>

text \<open>
  Every method of the class but \<^verbatim>\<open>clear\<close> and \<^verbatim>\<open>isInitialized\<close> is \<^verbatim>\<open>async\<close>. The
  model is of one call at a time, run to its end: a method takes the instance and the
  browser as they are and returns its result with the instance and the browser as it
  leaves them. A rejected promise is an error value.
\<close>

subsection \<open>crypto.subtle\<close>

text \<open>
  The module does not implement PBKDF2 or AES-GCM, it calls the browser's. They are
  parameters of the model, over any type \<open>'k\<close> of key handles:
  \<^item> \<open>pbkdf2 password salt iterations length\<close> is \<^verbatim>\<open>importKey\<close> followed by
    \<^verbatim>\<open>deriveKey\<close> with PBKDF2 and SHA-256, giving an AES-GCM key of that length;
  \<^item> \<open>aesGcmEncrypt key iv data\<close> is \<^verbatim>\<open>crypto.subtle.encrypt\<close>, the ciphertext
    with its tag, or \<open>None\<close> when the promise rejects;
  \<^item> \<open>aesGcmDecrypt key iv data\<close> is \<^verbatim>\<open>crypto.subtle.decrypt\<close>, \<open>None\<close> when the
    promise rejects (the tag does not verify).
\<close>

record 'k subtle =
  pbkdf2 :: "byte list \<Rightarrow> byte list \<Rightarrow> nat \<Rightarrow> nat \<Rightarrow> 'k"
  aesGcmEncrypt :: "'k \<Rightarrow> byte list \<Rightarrow> byte list \<Rightarrow> byte list option"
  aesGcmDecrypt :: "'k \<Rightarrow> byte list \<Rightarrow> byte list \<Rightarrow> byte list option"

subsection \<open>The instance\<close>

text \<open>
  \<^verbatim>\<open>this.key\<close> is \<^verbatim>\<open>null\<close> or a key; \<^verbatim>\<open>this.userId\<close> is unset until
  \<^verbatim>\<open>initialize\<close> assigns it. \<^verbatim>\<open>this.algorithm\<close> and \<^verbatim>\<open>this.keyLength\<close> are never
  assigned after the constructor.
\<close>

record 'k manager =
  key :: "'k option"
  userId :: "jsstring option"

definition keyLength :: nat where
  "keyLength = 256"

definition constructor :: "'k manager" where
  "constructor = \<lparr>key = None, userId = None\<rparr>"

datatype error = NotInitialized | EncryptFailed | DecryptFailed

definition deriveKey :: "'k subtle \<Rightarrow> jsstring \<Rightarrow> byte list \<Rightarrow> 'k" where
  "deriveKey S passphrase salt = pbkdf2 S (TextEncoder_encode passphrase) salt 100000 keyLength"

subsection \<open>encrypt and decrypt\<close>

text \<open>
  \<^verbatim>\<open>encrypt\<close> throws before anything else when there is no key; every failure after
  that is caught and thrown again as \<^verbatim>\<open>Failed to encrypt data\<close>. The result is the
  base64 text of the IV followed by the ciphertext. (\<^verbatim>\<open>String.fromCharCode.apply\<close>
  passes every byte as an argument, and an engine refuses more arguments than its stack
  holds; the model has no such bound, and the statements below are about the calls
  that return an envelope.)

  \<^verbatim>\<open>decrypt\<close> throws in the same way without a key, and turns every later failure
  (text that is not base64, a tag that does not verify) into
  \<^verbatim>\<open>Failed to decrypt data - invalid passphrase or corrupted data\<close>.
\<close>

definition encrypt ::
  "'k subtle \<Rightarrow> 'k manager \<Rightarrow> browser \<Rightarrow> jsstring \<Rightarrow> (error + jsstring) \<times> browser" where
  "encrypt S m b data =
     (case key m of
        None \<Rightarrow> (Inl NotInitialized, b)
      | Some k \<Rightarrow>
          (let dataBuffer = TextEncoder_encode data;
               (iv, b') = getRandomValues 12 b
           in case aesGcmEncrypt S k iv dataBuffer of
                None \<Rightarrow> (Inl EncryptFailed, b')
              | Some ct \<Rightarrow>
                  (case btoa (fromCharCode (iv @ ct)) of
                     None \<Rightarrow> (Inl EncryptFailed, b')
                   | Some e \<Rightarrow> (Inr e, b'))))"

definition decrypt :: "'k subtle \<Rightarrow> 'k manager \<Rightarrow> jsstring \<Rightarrow> error + jsstring" where
  "decrypt S m encryptedData =
     (case key m of
        None \<Rightarrow> Inl NotInitialized
      | Some k \<Rightarrow>
          (case atob encryptedData of
             None \<Rightarrow> Inl DecryptFailed
           | Some bin \<Rightarrow>
               (let combined = charCodes bin;
                    iv = take 12 combined;
                    ct = drop 12 combined
                in case aesGcmDecrypt S k iv ct of
                     None \<Rightarrow> Inl DecryptFailed
                   | Some decrypted \<Rightarrow> Inr (TextDecoder_decode decrypted))))"

subsection \<open>initialize and createUserVault\<close>

definition testMessage :: jsstring where
  "testMessage = str ''key_validation_test''"

definition saltKey :: "jsstring \<Rightarrow> jsstring" where
  "saltKey uid = str ''app_salt_'' @ uid"

definition testKey :: "jsstring \<Rightarrow> jsstring" where
  "testKey uid = str ''key_test_'' @ uid"

definition vaultKey :: "jsstring \<Rightarrow> jsstring" where
  "vaultKey uid = str ''user_vault_'' @ uid"

text \<open>\<^verbatim>\<open>new Uint8Array(salt.match(/.{1,2}/g).map(byte => parseInt(byte, 16)))\<close>\<close>

definition parseSalt :: "jsstring \<Rightarrow> byte list option" where
  "parseSalt salt = map_option (map (\<lambda>byte. toUint8 (parseInt16 byte))) (matchPairs salt)"

text \<open>
  \<^verbatim>\<open>initialize(passphrase, userId)\<close>; a call without \<^verbatim>\<open>userId\<close> is a call with
  \<^verbatim>\<open>'default'\<close>. The whole body is inside \<^verbatim>\<open>try\<close>, and the \<^verbatim>\<open>catch\<close> returns
  \<^verbatim>\<open>false\<close>: that is where a \<^verbatim>\<open>null\<close> from \<^verbatim>\<open>match\<close> and a failed \<^verbatim>\<open>encrypt\<close>
  end. The assignments made before the failure stay.
\<close>

definition initialize ::
  "'k subtle \<Rightarrow> jsstring \<Rightarrow> jsstring \<Rightarrow> 'k manager \<times> browser \<Rightarrow> bool \<times> 'k manager \<times> browser" where
  "initialize S passphrase uid mb =
     (let (m, b) = mb;
          stored = getItem b (saltKey uid);
          (salt, b1) =
            (if \<not> truthy stored then
               (let (saltArray, b') = getRandomValues 16 b;
                    fresh = hexString saltArray
                in (fresh, setItem (saltKey uid) fresh b'))
             else (case stored of Some s \<Rightarrow> (s, b) | None \<Rightarrow> ([], b)))
      in case parseSalt salt of
           None \<Rightarrow> (False, m, b1)
         | Some saltArray \<Rightarrow>
             (let m1 = m\<lparr>key := Some (deriveKey S passphrase saltArray), userId := Some uid\<rparr>;
                  testData = getItem b1 (testKey uid)
              in if \<not> truthy testData then
                   (case encrypt S m1 b1 testMessage of
                      (Inl e, b2) \<Rightarrow> (False, m1, b2)
                    | (Inr envelope, b2) \<Rightarrow> (True, m1, setItem (testKey uid) envelope b2))
                 else
                   (case testData of
                      None \<Rightarrow> (False, m1, b1)
                    | Some t \<Rightarrow>
                        (case decrypt S m1 t of
                           Inl e \<Rightarrow> (False, m1, b1)
                         | Inr decrypted \<Rightarrow> (decrypted = testMessage, m1, b1)))))"

definition createUserVault ::
  "'k subtle \<Rightarrow> jsstring \<Rightarrow> jsstring \<Rightarrow> 'k manager \<times> browser \<Rightarrow> bool \<times> 'k manager \<times> browser" where
  "createUserVault S passphrase uid mb =
     (let (m, b) = mb;
          b1 = removeItem (testKey uid) (removeItem (saltKey uid) (removeItem (vaultKey uid) b));
          (saltArray, b2) = getRandomValues 16 b1;
          salt = hexString saltArray;
          b3 = setItem (saltKey uid) salt b2;
          (success, m', b4) = initialize S passphrase uid (m, b3)
      in if success
         then (success, m', setItem (str ''current_user'') uid (setItem (vaultKey uid) (str ''true'') b4))
         else (success, m', b4))"

text \<open>The storage after the three \<^verbatim>\<open>removeItem\<close> calls that \<^verbatim>\<open>createUserVault\<close> starts with.\<close>

definition cleared :: "jsstring \<Rightarrow> browser \<Rightarrow> browser" where
  "cleared uid b = removeItem (testKey uid) (removeItem (saltKey uid) (removeItem (vaultKey uid) b))"

definition clear :: "'k manager \<Rightarrow> 'k manager" where
  "clear m = m\<lparr>key := None\<rparr>"

definition isInitialized :: "'k manager \<Rightarrow> bool" where
  "isInitialized m = (key m \<noteq> None)"

subsection \<open>Notes\<close>

text \<open>
  A note is a plain object. The module reads four of its properties, each of which may
  be missing, and copies every other one with \<^verbatim>\<open>{ ...note }\<close>: those are the extension
  part of the record.
\<close>

record Note =
  title :: "jsstring option"
  content :: "jsstring option"
  tags :: "jsstring list option"
  encrypted :: "bool option"

text \<open>
  \<^verbatim>\<open>Promise.all(tags.map(tag => this.encrypt(tag)))\<close>: every call is started, each
  drawing its own IV in the order of the tags, and one rejection rejects the whole.
\<close>

fun encryptAll ::
  "'k subtle \<Rightarrow> 'k manager \<Rightarrow> browser \<Rightarrow> jsstring list \<Rightarrow> (error + jsstring list) \<times> browser" where
  "encryptAll S m b [] = (Inr [], b)"
| "encryptAll S m b (t # ts) =
     (let (r, b1) = encrypt S m b t;
          (rs, b2) = encryptAll S m b1 ts
      in (case r of
            Inl e \<Rightarrow> Inl e
          | Inr x \<Rightarrow> (case rs of Inl e \<Rightarrow> Inl e | Inr xs \<Rightarrow> Inr (x # xs)), b2))"

fun decryptAll :: "'k subtle \<Rightarrow> 'k manager \<Rightarrow> jsstring list \<Rightarrow> error + jsstring list" where
  "decryptAll S m [] = Inr []"
| "decryptAll S m (t # ts) =
     (case decrypt S m t of
        Inl e \<Rightarrow> Inl e
      | Inr x \<Rightarrow> (case decryptAll S m ts of Inl e \<Rightarrow> Inl e | Inr xs \<Rightarrow> Inr (x # xs)))"

text \<open>\<^verbatim>\<open>if (note.title) { encryptedNote.title = await this.encrypt(note.title); }\<close>\<close>

definition encryptField ::
  "'k subtle \<Rightarrow> 'k manager \<Rightarrow> browser \<Rightarrow> jsstring option \<Rightarrow> (error + jsstring option) \<times> browser" where
  "encryptField S m b field =
     (case field of
        None \<Rightarrow> (Inr None, b)
      | Some s \<Rightarrow>
          if s = [] then (Inr (Some s), b)
          else (case encrypt S m b s of
                  (Inl e, b') \<Rightarrow> (Inl e, b')
                | (Inr x, b') \<Rightarrow> (Inr (Some x), b')))"

definition decryptField :: "'k subtle \<Rightarrow> 'k manager \<Rightarrow> jsstring option \<Rightarrow> error + jsstring option" where
  "decryptField S m field =
     (case field of
        None \<Rightarrow> Inr None
      | Some s \<Rightarrow>
          if s = [] then Inr (Some s)
          else (case decrypt S m s of Inl e \<Rightarrow> Inl e | Inr x \<Rightarrow> Inr (Some x)))"

definition encryptTags ::
  "'k subtle \<Rightarrow> 'k manager \<Rightarrow> browser \<Rightarrow> jsstring list option \<Rightarrow>
     (error + jsstring list option) \<times> browser" where
  "encryptTags S m b ts =
     (case ts of
        None \<Rightarrow> (Inr None, b)
      | Some [] \<Rightarrow> (Inr (Some []), b)
      | Some (t # ts') \<Rightarrow>
          (case encryptAll S m b (t # ts') of
             (Inl e, b') \<Rightarrow> (Inl e, b')
           | (Inr xs, b') \<Rightarrow> (Inr (Some xs), b')))"

definition decryptTags :: "'k subtle \<Rightarrow> 'k manager \<Rightarrow> jsstring list option \<Rightarrow> error + jsstring list option" where
  "decryptTags S m ts =
     (case ts of
        None \<Rightarrow> Inr None
      | Some [] \<Rightarrow> Inr (Some [])
      | Some (t # ts') \<Rightarrow>
          (case decryptAll S m (t # ts') of Inl e \<Rightarrow> Inl e | Inr xs \<Rightarrow> Inr (Some xs)))"

definition encryptNote ::
  "'k subtle \<Rightarrow> 'k manager \<Rightarrow> browser \<Rightarrow> 'a Note_scheme \<Rightarrow> (error + 'a Note_scheme) \<times> browser" where
  "encryptNote S m b n =
     (case encryptField S m b (title n) of
        (Inl e, b1) \<Rightarrow> (Inl e, b1)
      | (Inr t, b1) \<Rightarrow>
          (case encryptField S m b1 (content n) of
             (Inl e, b2) \<Rightarrow> (Inl e, b2)
           | (Inr c, b2) \<Rightarrow>
               (case encryptTags S m b2 (tags n) of
                  (Inl e, b3) \<Rightarrow> (Inl e, b3)
                | (Inr ts, b3) \<Rightarrow>
                    (Inr (n\<lparr>title := t, content := c, tags := ts, encrypted := Some True\<rparr>), b3))))"

definition decryptNote :: "'k subtle \<Rightarrow> 'k manager \<Rightarrow> 'a Note_scheme \<Rightarrow> error + 'a Note_scheme" where
  "decryptNote S m encryptedNote =
     (if encrypted encryptedNote \<noteq> Some True then Inr encryptedNote
      else
        (case decryptField S m (title encryptedNote) of
           Inl e \<Rightarrow> Inl e
         | Inr t \<Rightarrow>
             (case decryptField S m (content encryptedNote) of
                Inl e \<Rightarrow> Inl e
              | Inr c \<Rightarrow>
                  (case decryptTags S m (tags encryptedNote) of
                     Inl e \<Rightarrow> Inl e
                   | Inr ts \<Rightarrow>
                       Inr (encryptedNote\<lparr>title := t, content := c, tags := ts,
                                           encrypted := Some False\<rparr>)))))"

section \<open>Notions for the statements\<close>

text \<open>
  Two properties of \<^verbatim>\<open>crypto.subtle\<close> that statements below assume. The first:
  AES-GCM decrypts what it encrypted, under the same key and IV.
\<close>

definition aesGcmCorrect :: "'k subtle \<Rightarrow> bool" where
  "aesGcmCorrect S =
     (\<forall>k iv p c. aesGcmEncrypt S k iv p = Some c \<longrightarrow> aesGcmDecrypt S k iv c = Some p)"


text \<open>
  A string is \<open>textStable\<close> when \<^verbatim>\<open>TextDecoder\<close> gives it back from what
  \<^verbatim>\<open>TextEncoder\<close> made of it. Those are the strings with no unpaired surrogate that
  do not start with U+FEFF (\<open>textStable_iff\<close> below).
\<close>

definition textStable :: "jsstring \<Rightarrow> bool" where
  "textStable s = (TextDecoder_decode (TextEncoder_encode s) = s)"

text \<open>
  Unicode scalar values, and the strings in which every surrogate is half of a pair.
\<close>

definition scalar :: "nat \<Rightarrow> bool" where
  "scalar v = (v < 0xD800 \<or> (0xE000 \<le> v \<and> v < 0x110000))"

fun wellFormed :: "jsstring \<Rightarrow> bool" where
  "wellFormed [] = True"
| "wellFormed [c] = (\<not> (0xD800 \<le> unat c \<and> unat c \<le> 0xDFFF))"
| "wellFormed (c # d # ds) =
     (if 0xD800 \<le> unat c \<and> unat c \<le> 0xDBFF
      then 0xDC00 \<le> unat d \<and> unat d \<le> 0xDFFF \<and> wellFormed ds
      else \<not> (0xDC00 \<le> unat c \<and> unat c \<le> 0xDFFF) \<and> wellFormed (d # ds))"

text \<open>The same for a property that may be missing, and for the three text properties of a note.\<close>

definition fieldStable :: "jsstring option \<Rightarrow> bool" where
  "fieldStable field = (case field of None \<Rightarrow> True | Some s \<Rightarrow> textStable s)"

definition noteStable :: "'a Note_scheme \<Rightarrow> bool" where
  "noteStable n =
     (fieldStable (title n) \<and> fieldStable (content n) \<and>
      (case tags n of None \<Rightarrow> True | Some ts \<Rightarrow> list_all textStable ts))"

section \<open>A stand-in for crypto.subtle\<close>

text \<open>
  To run the model on concrete inputs, \<open>standIn\<close> takes the place of
  \<^verbatim>\<open>crypto.subtle\<close>. It has the shape of the real interface (a key from password and
  salt, a 16-byte tag after the ciphertext, decryption refusing a tag that does not
  match) and none of its strength. No theorem about the module depends on it: the
  theorems hold for every \<open>S\<close>, and \<open>standIn\<close> only shows that their hypotheses can be
  met.
\<close>

definition standInTag :: "byte list \<Rightarrow> byte list \<Rightarrow> byte list \<Rightarrow> byte list" where
  "standInTag k iv p = replicate 16 (sum_list (k @ iv @ p))"

definition standIn :: "byte list subtle" where
  "standIn =
     \<lparr>pbkdf2 = (\<lambda>password salt iterations len. password @ salt),
      aesGcmEncrypt = (\<lambda>k iv p. Some (p @ standInTag k iv p)),
      aesGcmDecrypt = (\<lambda>k iv c.
         if 16 \<le> length c \<and>
            drop (length c - 16) c = standInTag k iv (take (length c - 16) c)
         then Some (take (length c - 16) c) else None)\<rparr>"

text \<open>A random source for the concrete runs: the bytes 7, 20, 33, ...\<close>

definition tape :: "nat \<Rightarrow> byte" where
  "tape i = of_nat (13 * i + 7)"

definition emptyBrowser :: browser where
  "emptyBrowser = \<lparr>localStorage = Map.empty, randomTape = tape, randomPos = 0\<rparr>"

text \<open>An instance that already holds a key.\<close>

definition demoManager :: "byte list manager" where
  "demoManager = \<lparr>key = Some [1, 2, 3], userId = None\<rparr>"


text \<open>
  A user and a passphrase; a storage that holds a salt for that user and nothing else;
  and the same storage once a probe has been written.
\<close>

definition demoUser :: jsstring where
  "demoUser = str ''u1''"

definition demoPassphrase :: jsstring where
  "demoPassphrase = str ''pw''"

definition saltBrowser :: browser where
  "saltBrowser = setItem (saltKey demoUser) (str ''0a0b'') emptyBrowser"

definition probeBrowser :: browser where
  "probeBrowser =
     setItem (testKey demoUser)
       (str ''BxQhLjtIVWJvfImWa2V5X3ZhbGlkYXRpb25fdGVzdJycnJycnJycnJycnJycnJw='')
       (saltBrowser\<lparr>randomPos := 12\<rparr>)"

text \<open>The empty storage after a first \<^verbatim>\<open>initialize\<close> for that user.\<close>

definition firstRunBrowser :: browser where
  "firstRunBrowser =
     setItem (testKey demoUser)
       (str ''1+Tx/gsYJTI/TFlma2V5X3ZhbGlkYXRpb25fdGVzdM/Pz8/Pz8/Pz8/Pz8/Pz88='')
       (setItem (saltKey demoUser) (str ''0714212e3b4855626f7c8996a3b0bdca'')
          (emptyBrowser\<lparr>randomPos := 28\<rparr>))"

text \<open>
  The empty storage after \<^verbatim>\<open>createUserVault\<close> for that user, with the instance it
  leaves; and what \<^verbatim>\<open>createUserVault\<close> makes of \<open>probeBrowser\<close>, where a vault is
  already stored.
\<close>

definition vaultBrowser :: browser where
  "vaultBrowser =
     setItem (str ''current_user'') demoUser
       (setItem (vaultKey demoUser) (str ''true'') firstRunBrowser)"

definition demoVaultManager :: "byte list manager" where
  "demoVaultManager =
     \<lparr>key = Some [112, 119, 7, 20, 33, 46, 59, 72, 85, 98, 111, 124, 137, 150, 163, 176, 189, 202],
      userId = Some demoUser\<rparr>"



section \<open>Facts about the runtime functions\<close>

subsection \<open>base64: atob inverts btoa\<close>

lemma dm1: "b < n \<Longrightarrow> (a * n + b) div n = (a::nat)" by simp
lemma dm2: "b < n \<Longrightarrow> (a * n + b) mod n = (b::nat)" by simp
lemma h16: "y < 256 \<Longrightarrow> y div 16 < (16::nat)" by (simp add: less_mult_imp_div_less)
lemma h64: "z < 256 \<Longrightarrow> z div 64 < (4::nat)" by (simp add: less_mult_imp_div_less)
lemma h4: "x < 256 \<Longrightarrow> x div 4 < (64::nat)" by (simp add: less_mult_imp_div_less)
lemma g1: "y < 256 \<Longrightarrow> (x mod 4 * 16 + y div 16) div 16 = x mod (4::nat)" by (simp add: dm1 h16)
lemma g2: "y < 256 \<Longrightarrow> (x mod 4 * 16 + y div 16) mod 16 = y div (16::nat)" by (simp add: dm2 h16)
lemma g3: "z < 256 \<Longrightarrow> (y mod 16 * 4 + z div 64) div 4 = y mod (16::nat)" by (simp add: dm1 h64)
lemma g4: "z < 256 \<Longrightarrow> (y mod 16 * 4 + z div 64) mod 4 = z div (64::nat)" by (simp add: dm2 h64)
lemma g5: "(x mod 4 * 16) div 16 = x mod (4::nat)" by simp
lemma g6: "(y mod 16 * 4) div 4 = y mod (16::nat)" by simp
lemma g7: "x div 4 * 4 + x mod 4 = (x::nat)" by simp
lemma g8: "y div 16 * 16 + y mod 16 = (y::nat)" by simp
lemma g9: "z div 64 * 64 + z mod 64 = (z::nat)" by simp
lemma r1: "x < 256 \<Longrightarrow> y < 256 \<Longrightarrow> x mod 4 * 16 + y div 16 < (64::nat)"
proof -
  assume "y < 256" then have "y div 16 < 16" by (rule h16)
  moreover have "x mod 4 < 4" by simp
  ultimately show ?thesis by linarith
qed
lemma r2: "z < 256 \<Longrightarrow> y mod 16 * 4 + z div 64 < (64::nat)"
proof -
  assume "z < 256" then have "z div 64 < 4" by (rule h64)
  moreover have "y mod 16 < 16" by simp
  ultimately show ?thesis by linarith
qed
lemma r3: "x mod 4 * 16 < (64::nat)"
proof -
  have "x mod 4 < 4" by simp
  then show ?thesis by linarith
qed
lemma r4: "y mod 16 * 4 < (64::nat)"
proof -
  have "y mod 16 < 16" by simp
  then show ?thesis by linarith
qed

lemma b64Value_b64Char: "i < 64 \<Longrightarrow> b64Value (b64Char i) = Some i"
  by (auto simp: b64Value_def b64Char_def)

lemma b64Char_bounds: "i < 64 \<Longrightarrow> 43 \<le> b64Char i \<and> b64Char i \<le> 122 \<and> b64Char i \<noteq> 61"
  by (auto simp: b64Char_def)

lemma b64Decode_b64Encode:
  "\<forall>x \<in> set xs. x < 256 \<Longrightarrow> b64Decode (b64Encode xs) = Some xs"
proof (induction xs rule: b64Encode.induct)
  case 1
  then show ?case by simp
next
  case (2 x)
  then have "x < 256" by simp
  then show ?case by (simp add: b64Value_b64Char h4 r3 g5 g7)
next
  case (3 x y)
  then have "x < 256" "y < 256" by simp_all
  then show ?case by (simp add: b64Value_b64Char h4 r1 r4 g1 g2 g6 g7 g8)
next
  case (4 x y z bs)
  then have xyz: "x < 256" "y < 256" "z < 256" and IH: "b64Decode (b64Encode bs) = Some bs"
    by simp_all
  from xyz show ?case
    by (simp add: IH b64Value_b64Char h4 r1 r2 g1 g2 g3 g4 g7 g8 g9)
qed

lemma b64Encode_chars:
  "\<forall>x \<in> set xs. x < 256 \<Longrightarrow> c \<in> set (b64Encode xs) \<Longrightarrow> 43 \<le> c \<and> c \<le> 122 \<and> c \<noteq> 61"
proof (induction xs rule: b64Encode.induct)
  case 1
  then show ?case by simp
next
  case (2 x)
  then have "x < 256" by simp
  with 2 show ?case using b64Char_bounds [OF h4] b64Char_bounds [OF r3] by auto
next
  case (3 x y)
  then have "x < 256" "y < 256" by simp_all
  with 3 show ?case
    using b64Char_bounds [OF h4] b64Char_bounds [OF r1] b64Char_bounds [OF r4] by auto
next
  case (4 x y z bs)
  then have xyz: "x < 256" "y < 256" "z < 256" by simp_all
  have "z mod 64 < 64" by simp
  with 4 xyz show ?case
    using b64Char_bounds [OF h4] b64Char_bounds [OF r1] b64Char_bounds [OF r2]
      b64Char_bounds [of "z mod 64"] by auto
qed

lemma length_b64Encode_mod:
  "length (b64Encode xs) mod 4 = (if length xs mod 3 = 0 then 0 else length xs mod 3 + 1)"
  by (induction xs rule: b64Encode.induct) (auto simp: mod_Suc)

lemma b64Encode_Nil_iff: "b64Encode xs = [] \<longleftrightarrow> xs = []"
  by (induction xs rule: b64Encode.induct) auto

subsection \<open>Bytes and code units\<close>

lemma unat8_lt: "unat (b :: byte) < 256"
  using unsigned_less [of b, where 'a=nat] by simp

lemma unat_ucast_byte: "unat (ucast (b :: byte) :: 16 word) = unat b"
proof -
  have "unat b < 2 ^ 16" using unat8_lt [of b] by simp
  then show ?thesis by (simp add: unsigned_ucast_eq take_bit_nat_eq_self)
qed

lemma ucast_ucast_byte: "(ucast (ucast (b :: byte) :: 16 word) :: byte) = b"
  by (simp add: ucast_up_ucast_id is_up)

lemma unat_of_nat16: "n < 65536 \<Longrightarrow> unat (of_nat n :: 16 word) = n"
  by (simp add: unat_of_nat)

lemma unat_of_nat8: "n < 256 \<Longrightarrow> unat (of_nat n :: byte) = n"
  by (simp add: unat_of_nat)

subsection \<open>btoa and atob\<close>

lemma stripPadding_b64Encode:
  assumes "\<forall>x \<in> set xs. x < 256"
  shows "stripPadding (b64Encode xs @ b64Padding (length xs)) = b64Encode xs"
proof -
  have nopad: "c \<in> set (b64Encode xs) \<Longrightarrow> c \<noteq> 61" for c
    using b64Encode_chars [OF assms] by blast
  have lastE: "b64Encode xs \<noteq> [] \<Longrightarrow> last (b64Encode xs) \<noteq> 61"
    using nopad last_in_set by blast
  have "length xs mod 3 = 0 \<or> length xs mod 3 = 1 \<or> length xs mod 3 = 2" by arith
  then show ?thesis
  proof (elim disjE)
    assume m: "length xs mod 3 = 0"
    then have "b64Padding (length xs) = []" by (simp add: b64Padding_def)
    then show ?thesis using lastE by (auto simp: stripPadding_def)
  next
    assume m: "length xs mod 3 = 1"
    then have p: "b64Padding (length xs) = [61, 61]"
      by (simp add: b64Padding_def numeral_2_eq_2)
    have "length (b64Encode xs @ [61, 61]) mod 4 = 0"
      using length_b64Encode_mod [of xs] m by (simp add: mod_Suc)
    then show ?thesis unfolding p
      by (simp add: stripPadding_def butlast_append)
  next
    assume m: "length xs mod 3 = 2"
    then have p: "b64Padding (length xs) = [61]"
      by (simp add: b64Padding_def)
    have "length (b64Encode xs @ [61]) mod 4 = 0"
      using length_b64Encode_mod [of xs] m by (simp add: mod_Suc)
    then show ?thesis unfolding p using lastE
      by (auto simp: stripPadding_def butlast_append)
  qed
qed

lemma atob_btoa:
  assumes "btoa s = Some e"
  shows "atob e = Some s"
proof -
  let ?xs = "map unat s"
  let ?cs = "b64Encode ?xs @ b64Padding (length s)"
  from assms have small: "\<forall>x \<in> set ?xs. x < 256" and e: "e = map of_nat ?cs"
    by (auto simp: btoa_def not_less split: if_splits intro: le_neq_implies_less)
  have chars: "c \<in> set ?cs \<Longrightarrow> 43 \<le> c \<and> c \<le> 122" for c
    using b64Encode_chars [OF small] by (auto simp: b64Padding_def)
  have "unat (of_nat c :: 16 word) = c" if "c \<in> set ?cs" for c
    using chars [OF that] by (intro unat_of_nat16) simp
  then have "map unat e = ?cs"
    unfolding e map_map by (intro map_idI) simp
  moreover have "filter (\<lambda>c. \<not> asciiWhitespace c) ?cs = ?cs"
    unfolding filter_id_conv using chars by (fastforce simp: asciiWhitespace_def)
  moreover have "stripPadding ?cs = b64Encode ?xs"
    using stripPadding_b64Encode [OF small] by simp
  moreover have "map of_nat ?xs = s"
    by (simp add: map_idI)
  ultimately show ?thesis
    by (simp add: atob_def b64Decode_b64Encode [OF small])
qed

lemma btoa_fromCharCode:
  "btoa (fromCharCode bs) =
     Some (map of_nat (b64Encode (map unat bs) @ b64Padding (length bs)))"
proof -
  have "\<not> 255 < unat b" for b :: byte
    using unat8_lt [of b] by simp
  then show ?thesis
    by (simp add: btoa_def fromCharCode_def comp_def unat_ucast_byte)
qed

lemma charCodes_fromCharCode: "charCodes (fromCharCode bs) = bs"
  by (simp add: charCodes_def fromCharCode_def comp_def ucast_ucast_byte)

lemma btoa_Nil_iff: "btoa s = Some e \<Longrightarrow> e = [] \<longleftrightarrow> s = []"
  by (auto simp: btoa_def b64Encode_Nil_iff b64Padding_def split: if_splits)

subsection \<open>The salt as hexadecimal text\<close>

lemma hexDigit_cases:
  "d < 16 \<Longrightarrow> unat (hexDigit d) = (if d < 10 then 48 + d else 87 + d)"
proof -
  assume "d < 16"
  then have "unat (of_nat (48 + d) :: 16 word) = 48 + d" "unat (of_nat (87 + d) :: 16 word) = 87 + d"
    by (intro unat_of_nat16, simp)+
  then show ?thesis unfolding hexDigit_def by (simp only: if_distrib [of unat] if_cancel)
qed

lemma hexValue_hexDigit: "d < 16 \<Longrightarrow> hexValue (hexDigit d) = Some d"
  by (simp add: hexValue_def hexDigit_cases)

lemma hexDigit_plain:
  assumes "d < 16"
  shows "\<not> lineTerminator (hexDigit d)" "\<not> whiteSpace (hexDigit d)"
    "hexDigit d \<noteq> 0x2D" "hexDigit d \<noteq> 0x2B" "hexDigit d \<noteq> 0x78" "hexDigit d \<noteq> 0x58"
proof -
  have u: "unat (hexDigit d) = (if d < 10 then 48 + d else 87 + d)"
    using assms by (rule hexDigit_cases)
  have ne: "hexDigit d \<noteq> w" if "unat (hexDigit d) \<noteq> unat w" for w
    using that by auto
  have rng: "48 \<le> unat (hexDigit d) \<and> unat (hexDigit d) \<le> 102"
    using u assms by auto
  show "\<not> lineTerminator (hexDigit d)"
    unfolding lineTerminator_def using rng by (auto dest!: arg_cong [where f = unat])
  show "\<not> whiteSpace (hexDigit d)"
    unfolding whiteSpace_def using rng
    by (auto simp: word_le_nat_alt dest!: arg_cong [where f = unat])
  show "hexDigit d \<noteq> 0x2D" "hexDigit d \<noteq> 0x2B" "hexDigit d \<noteq> 0x78" "hexDigit d \<noteq> 0x58"
    using u assms by (auto intro!: ne split: if_splits)
qed

lemma nibbles: "unat (b :: byte) div 16 < 16" "unat (b :: byte) mod 16 < 16"
  using unat8_lt [of b] by (simp_all add: less_mult_imp_div_less)

lemma dotPairs_hexString: "dotPairs (hexString bs) = map toHex2 bs"
  by (induction bs) (simp_all add: hexString_def toHex2_def hexDigit_plain nibbles)

lemma parseInt16_toHex2: "parseInt16 (toHex2 b) = Some (int (unat b))"
proof -
  let ?h = "hexDigit (unat b div 16)" and ?l = "hexDigit (unat b mod 16)"
  have "dropWhile whiteSpace [?h, ?l] = [?h, ?l]"
    by (simp add: hexDigit_plain nibbles)
  moreover have "stripSign [?h, ?l] = (1, [?h, ?l])"
    by (simp add: stripSign_def hexDigit_plain nibbles)
  moreover have "stripPrefix0x [?h, ?l] = [?h, ?l]"
    by (simp add: stripPrefix0x_def hexDigit_plain nibbles)
  moreover have "hexRun 0 [?h, ?l] = unat b div 16 * 16 + unat b mod 16"
    by (simp add: hexValue_hexDigit nibbles)
  ultimately show ?thesis
    by (simp add: parseInt16_def toHex2_def hexValue_hexDigit nibbles)
qed

lemma toUint8_parseInt16_toHex2: "toUint8 (parseInt16 (toHex2 b)) = b"
  by (simp add: parseInt16_toHex2 toUint8_def)

lemma parseSalt_hexString: "bs \<noteq> [] \<Longrightarrow> parseSalt (hexString bs) = Some bs"
  by (simp add: parseSalt_def matchPairs_def dotPairs_hexString
      toUint8_parseInt16_toHex2 comp_def)

lemma hexString_Nil_iff: "hexString bs = [] \<longleftrightarrow> bs = []"
  by (cases bs) (simp_all add: hexString_def toHex2_def)

lemma getRandomValues_length: "length (fst (getRandomValues n b)) = n"
  by (simp add: getRandomValues_def)

subsection \<open>TextEncoder and TextDecoder\<close>

lemma div_lt: "v < a * n \<Longrightarrow> v div n < (a::nat)"
  by (simp add: less_mult_imp_div_less mult.commute)

lemma div_ge: "a * n \<le> v \<Longrightarrow> 0 < n \<Longrightarrow> (a::nat) \<le> v div n"
  by (metis div_le_mono div_mult_self_is_m mult.commute)

lemma utf8_1:
  assumes "v < 0x80"
  shows "utf8Decode 0 0 0x80 0xBF (utf8Bytes v @ rest) = v # utf8Decode 0 0 0x80 0xBF rest"
  using assms by (simp add: utf8Bytes_def leadByte_def unat_of_nat8)

lemma utf8_2:
  assumes "0x80 \<le> v" and "v < 0x800"
  shows "utf8Decode 0 0 0x80 0xBF (utf8Bytes v @ rest) = v # utf8Decode 0 0 0x80 0xBF rest"
proof -
  have d: "v div 64 < 32" "2 \<le> v div 64"
    using assms by (auto intro: div_lt div_ge)
  have m: "v mod 64 < 64" "v mod 64 \<le> 63"
    using mod_less_divisor [of 64 v] by simp_all
  have b1: "unat (of_nat (0xC0 + v div 64) :: byte) = 0xC0 + v div 64"
    using d by (intro unat_of_nat8) simp
  have b2: "unat (of_nat (0x80 + v mod 64) :: byte) = 0x80 + v mod 64"
    using m by (intro unat_of_nat8) simp
  have l: "leadByte (0xC0 + v div 64) = Need (v div 64) 1 0x80 0xBF"
    using d by (simp add: leadByte_def)
  have bytes: "utf8Bytes v = [of_nat (0xC0 + v div 64), of_nat (0x80 + v mod 64)]"
    using assms by (simp add: utf8Bytes_def del: of_nat_add of_nat_numeral)
  show ?thesis
    unfolding bytes using m by (simp add: b1 b2 l del: of_nat_add of_nat_numeral)
qed

lemma split64: "v div 64 * 64 + v mod 64 = (v::nat)"
  by simp

lemma split4096: "v div 4096 * 64 + v div 64 mod 64 = (v::nat) div 64"
proof -
  have "v div 64 div 64 = v div 4096"
    by (simp add: div_mult2_eq [symmetric])
  then show ?thesis
    using split64 [of "v div 64"] by simp
qed

lemma split262144: "v div 262144 * 64 + v div 4096 mod 64 = (v::nat) div 4096"
proof -
  have "v div 4096 div 64 = v div 262144"
    by (simp add: div_mult2_eq [symmetric])
  then show ?thesis
    using split64 [of "v div 4096"] by simp
qed

lemma mod64: "(v::nat) mod 64 < 64" "(v::nat) mod 64 \<le> 63"
  using mod_less_divisor [of 64 v] by simp_all

lemma utf8_3:
  assumes "0x800 \<le> v" and "v < 0x10000" and "scalar v"
  shows "utf8Decode 0 0 0x80 0xBF (utf8Bytes v @ rest) = v # utf8Decode 0 0 0x80 0xBF rest"
proof -
  let ?a = "v div 4096" and ?q = "v div 64 mod 64" and ?r = "v mod 64"
  have a: "?a < 16" using assms(2) by (auto intro: div_lt)
  have lo: "?a = 0 \<Longrightarrow> 32 \<le> ?q"
  proof -
    assume "?a = 0"
    then have "v div 64 = ?q" using split4096 [of v] by simp
    moreover have "32 \<le> v div 64" using assms(1) by (auto intro: div_ge)
    ultimately show ?thesis by simp
  qed
  have hi: "?a = 13 \<Longrightarrow> ?q < 32"
  proof -
    assume a13: "?a = 13"
    then have "v div 64 = 832 + ?q" using split4096 [of v] by simp
    moreover have "v < 0xD800"
    proof (rule ccontr)
      assume "\<not> v < 0xD800"
      with assms(3) have "0xE000 \<le> v" by (simp add: scalar_def)
      then have "14 \<le> ?a" by (auto intro: div_ge)
      with a13 show False by simp
    qed
    then have "v div 64 < 864" by (auto intro: div_lt)
    ultimately show ?thesis by simp
  qed
  have b1: "unat (of_nat (0xE0 + ?a) :: byte) = 0xE0 + ?a"
    using a by (intro unat_of_nat8) simp
  have b2: "unat (of_nat (0x80 + ?q) :: byte) = 0x80 + ?q"
    using mod64 [of "v div 64"] by (intro unat_of_nat8) simp
  have b3: "unat (of_nat (0x80 + ?r) :: byte) = 0x80 + ?r"
    using mod64 [of v] by (intro unat_of_nat8) simp
  have l: "leadByte (0xE0 + ?a) =
      Need ?a 2 (if ?a = 0 then 0xA0 else 0x80) (if ?a = 13 then 0x9F else 0xBF)"
    using a by (simp add: leadByte_def)
  have bytes: "utf8Bytes v = [of_nat (0xE0 + ?a), of_nat (0x80 + ?q), of_nat (0x80 + ?r)]"
    using assms by (simp add: utf8Bytes_def del: of_nat_add of_nat_numeral)
  have inb: "(if ?a = 0 then 0xA0 else 0x80) \<le> 0x80 + ?q \<and> 0x80 + ?q \<le> (if ?a = 13 then 0x9F else 0xBF)"
    using lo hi mod64 [of "v div 64"] by auto
  have v: "(?a * 64 + ?q) * 64 + ?r = v"
    using split4096 [of v] split64 [of v] by simp
  show ?thesis
    unfolding bytes using inb mod64 [of v] v
    by (simp add: b1 b2 b3 l del: of_nat_add of_nat_numeral)
qed

lemma utf8_4:
  assumes "0x10000 \<le> v" and "v < 0x110000"
  shows "utf8Decode 0 0 0x80 0xBF (utf8Bytes v @ rest) = v # utf8Decode 0 0 0x80 0xBF rest"
proof -
  let ?a = "v div 262144" and ?p = "v div 4096 mod 64" and ?q = "v div 64 mod 64" and ?r = "v mod 64"
  have a: "?a < 5" using assms(2) by (auto intro: div_lt)
  have lo: "?a = 0 \<Longrightarrow> 16 \<le> ?p"
  proof -
    assume "?a = 0"
    then have "v div 4096 = ?p" using split262144 [of v] by simp
    moreover have "16 \<le> v div 4096" using assms(1) by (auto intro: div_ge)
    ultimately show ?thesis by simp
  qed
  have hi: "?a = 4 \<Longrightarrow> ?p < 16"
  proof -
    assume "?a = 4"
    then have "v div 4096 = 256 + ?p" using split262144 [of v] by simp
    moreover have "v div 4096 < 272" using assms(2) by (auto intro: div_lt)
    ultimately show ?thesis by simp
  qed
  have b1: "unat (of_nat (0xF0 + ?a) :: byte) = 0xF0 + ?a"
    using a by (intro unat_of_nat8) simp
  have b2: "unat (of_nat (0x80 + ?p) :: byte) = 0x80 + ?p"
    using mod64 [of "v div 4096"] by (intro unat_of_nat8) simp
  have b3: "unat (of_nat (0x80 + ?q) :: byte) = 0x80 + ?q"
    using mod64 [of "v div 64"] by (intro unat_of_nat8) simp
  have b4: "unat (of_nat (0x80 + ?r) :: byte) = 0x80 + ?r"
    using mod64 [of v] by (intro unat_of_nat8) simp
  have l: "leadByte (0xF0 + ?a) =
      Need ?a 3 (if ?a = 0 then 0x90 else 0x80) (if ?a = 4 then 0x8F else 0xBF)"
    using a by (simp add: leadByte_def)
  have bytes: "utf8Bytes v =
      [of_nat (0xF0 + ?a), of_nat (0x80 + ?p), of_nat (0x80 + ?q), of_nat (0x80 + ?r)]"
    using assms by (simp add: utf8Bytes_def del: of_nat_add of_nat_numeral)
  have inb: "(if ?a = 0 then 0x90 else 0x80) \<le> 0x80 + ?p \<and> 0x80 + ?p \<le> (if ?a = 4 then 0x8F else 0xBF)"
    using lo hi mod64 [of "v div 4096"] by auto
  have v: "((?a * 64 + ?p) * 64 + ?q) * 64 + ?r = v"
    using split262144 [of v] split4096 [of v] split64 [of v] by simp
  show ?thesis
    unfolding bytes using inb mod64 [of v] mod64 [of "v div 64"] v
    by (simp add: b1 b2 b3 b4 l del: of_nat_add of_nat_numeral)
qed

lemma utf8Decode_utf8Bytes:
  assumes "scalar v"
  shows "utf8Decode 0 0 0x80 0xBF (utf8Bytes v @ rest) = v # utf8Decode 0 0 0x80 0xBF rest"
proof -
  have "v < 0x80 \<or> (0x80 \<le> v \<and> v < 0x800) \<or> (0x800 \<le> v \<and> v < 0x10000) \<or>
      (0x10000 \<le> v \<and> v < 0x110000)"
    using assms unfolding scalar_def by linarith
  then show ?thesis
    using assms utf8_1 [of v rest] utf8_2 [of v rest] utf8_3 [of v rest] utf8_4 [of v rest]
    by blast
qed

lemma utf8Decode_concat:
  "list_all scalar vs \<Longrightarrow> utf8Decode 0 0 0x80 0xBF (concat (map utf8Bytes vs)) = vs"
  by (induction vs) (simp_all add: utf8Decode_utf8Bytes)

lemma unat16_lt: "unat (c :: 16 word) < 65536"
  using unsigned_less [of c, where 'a=nat] by simp

lemma scalarValues_scalar: "list_all scalar (scalarValues s)"
proof (induction s rule: scalarValues.induct)
  case 1
  then show ?case by simp
next
  case (2 c)
  then show ?case using unat16_lt [of c] by (auto simp: scalar_def)
next
  case (3 c d ds)
  then show ?case using unat16_lt [of c] by (auto simp: scalar_def)
qed

lemma utf8Decode_encode: "utf8Decode 0 0 0x80 0xBF (TextEncoder_encode s) = scalarValues s"
  by (simp add: TextEncoder_encode_def utf8Decode_concat scalarValues_scalar)

text \<open>
  What comes back from the pair: the string with every unpaired surrogate replaced by
  U+FFFD, less one leading U+FEFF.
\<close>

lemma decode_encode:
  "TextDecoder_decode (TextEncoder_encode s) = concat (map codeUnits (stripBOM (scalarValues s)))"
  by (simp add: TextDecoder_decode_def utf8Decode_encode)

lemma codeUnits_pair:
  assumes "0xD800 \<le> unat c" "unat c \<le> 0xDBFF" "0xDC00 \<le> unat d" "unat d \<le> 0xDFFF"
  shows "codeUnits (0x10000 + (unat c - 0xD800) * 0x400 + (unat d - 0xDC00)) = [c, d]"
proof -
  let ?h = "unat c - 0xD800" and ?l = "unat d - 0xDC00"
  have l: "?l < 0x400" using assms by simp
  have "(0x10000 + ?h * 0x400 + ?l) - 0x10000 = ?h * 0x400 + ?l" by simp
  moreover have "(?h * 0x400 + ?l) div 0x400 = ?h" "(?h * 0x400 + ?l) mod 0x400 = ?l"
    using l by simp_all
  moreover have "0xD800 + ?h = unat c" "0xDC00 + ?l = unat d"
    using assms by simp_all
  ultimately show ?thesis
    by (simp add: codeUnits_def del: of_nat_add of_nat_numeral)
qed

lemma codeUnits_single: "codeUnits (unat (c :: 16 word)) = [c]"
  using unat16_lt [of c] by (simp add: codeUnits_def)

lemma wellFormed_units: "wellFormed s \<Longrightarrow> concat (map codeUnits (scalarValues s)) = s"
proof (induction s rule: scalarValues.induct)
  case 1
  then show ?case by simp
next
  case (2 c)
  then show ?case by (auto simp: codeUnits_single)
next
  case (3 c d ds)
  show ?case
  proof (cases "0xD800 \<le> unat c \<and> unat c \<le> 0xDBFF")
    case True
    with "3.prems" have d: "0xDC00 \<le> unat d" "unat d \<le> 0xDFFF" and wf: "wellFormed ds"
      by simp_all
    have "scalarValues (c # d # ds) =
        (0x10000 + (unat c - 0xD800) * 0x400 + (unat d - 0xDC00)) # scalarValues ds"
      using True d by simp
    then have "concat (map codeUnits (scalarValues (c # d # ds))) =
        codeUnits (0x10000 + (unat c - 0xD800) * 0x400 + (unat d - 0xDC00)) @
        concat (map codeUnits (scalarValues ds))"
      by (simp only: list.map concat.simps)
    also have "\<dots> = [c, d] @ ds"
      using True d "3.IH"(1) wf by (simp only: codeUnits_pair)
    finally show ?thesis by simp
  next
    case False
    with "3.prems" have nl: "\<not> (0xDC00 \<le> unat c \<and> unat c \<le> 0xDFFF)" and wf: "wellFormed (d # ds)"
      by simp_all
    have sv: "scalarValues (c # d # ds) = unat c # scalarValues (d # ds)"
      using False nl by simp
    have ih: "concat (map codeUnits (scalarValues (d # ds))) = d # ds"
      using "3.IH"(4) False nl wf by blast
    show ?thesis
      unfolding sv by (simp only: list.map concat.simps ih codeUnits_single) simp
  qed
qed

lemma unat_FEFF: "(c :: 16 word) \<noteq> 0xFEFF \<Longrightarrow> unat c \<noteq> 0xFEFF"
proof
  assume ne: "c \<noteq> 0xFEFF" and "unat c = 0xFEFF"
  then have "of_nat (unat c) = (of_nat 0xFEFF :: 16 word)" by simp
  then have "c = 0xFEFF" by simp
  with ne show False by simp
qed

lemma stripBOM_scalarValues:
  "s = [] \<or> hd s \<noteq> 0xFEFF \<Longrightarrow> stripBOM (scalarValues s) = scalarValues s"
proof (induction s rule: scalarValues.induct)
  case 1
  then show ?case by (simp add: stripBOM_def)
next
  case (2 c)
  then have "unat c \<noteq> 0xFEFF" using unat_FEFF [of c] by auto
  then show ?case by (simp add: stripBOM_def)
next
  case (3 c d ds)
  then have "unat c \<noteq> 0xFEFF" using unat_FEFF [of c] by auto
  then show ?case by (simp add: stripBOM_def)
qed

lemma wellFormed_textStable:
  "wellFormed s \<Longrightarrow> s = [] \<or> hd s \<noteq> 0xFEFF \<Longrightarrow> textStable s"
  by (simp add: textStable_def decode_encode stripBOM_scalarValues wellFormed_units)

lemma codeUnits_FFFD: "codeUnits 0xFFFD = [0xFFFD]"
  by (simp add: codeUnits_def)

lemma length_units: "length (concat (map codeUnits (scalarValues s))) = length s"
proof (induction s rule: scalarValues.induct)
  case 1
  then show ?case by simp
next
  case (2 c)
  then show ?case by (simp add: codeUnits_FFFD codeUnits_single)
next
  case (3 c d ds)
  then show ?case
    by (auto simp: codeUnits_FFFD codeUnits_single codeUnits_pair simp del: of_nat_add)
      (simp add: codeUnits_def)
qed

lemma units_wellFormed: "concat (map codeUnits (scalarValues s)) = s \<Longrightarrow> wellFormed s"
proof (induction s rule: scalarValues.induct)
  case 1
  then show ?case by simp
next
  case (2 c)
  then show ?case by (auto simp: codeUnits_FFFD split: if_splits)
next
  case (3 c d ds)
  show ?case
  proof (cases "0xD800 \<le> unat c \<and> unat c \<le> 0xDBFF")
    case high: True
    show ?thesis
    proof (cases "0xDC00 \<le> unat d \<and> unat d \<le> 0xDFFF")
      case True
      have "scalarValues (c # d # ds) =
          (0x10000 + (unat c - 0xD800) * 0x400 + (unat d - 0xDC00)) # scalarValues ds"
        using high True by simp
      then have "concat (map codeUnits (scalarValues (c # d # ds))) =
          codeUnits (0x10000 + (unat c - 0xD800) * 0x400 + (unat d - 0xDC00)) @
          concat (map codeUnits (scalarValues ds))"
        by (simp only: list.map concat.simps)
      also have "\<dots> = [c, d] @ concat (map codeUnits (scalarValues ds))"
        using high True by (simp only: codeUnits_pair)
      finally have "concat (map codeUnits (scalarValues ds)) = ds"
        using "3.prems" by simp
      then have "wellFormed ds"
        using "3.IH"(1) high True by blast
      then show ?thesis using high True by auto
    next
      case False
      then have "scalarValues (c # d # ds) = 0xFFFD # scalarValues (d # ds)"
        using high by simp
      then have "concat (map codeUnits (scalarValues (c # d # ds))) =
          [0xFFFD] @ concat (map codeUnits (scalarValues (d # ds)))"
        by (simp only: list.map concat.simps codeUnits_FFFD)
      with "3.prems" have "c = 0xFFFD" by simp
      with high show ?thesis by simp
    qed
  next
    case nothigh: False
    show ?thesis
    proof (cases "0xDC00 \<le> unat c \<and> unat c \<le> 0xDFFF")
      case True
      then have "scalarValues (c # d # ds) = 0xFFFD # scalarValues (d # ds)"
        using nothigh by simp
      then have "concat (map codeUnits (scalarValues (c # d # ds))) =
          [0xFFFD] @ concat (map codeUnits (scalarValues (d # ds)))"
        by (simp only: list.map concat.simps codeUnits_FFFD)
      with "3.prems" have "c = 0xFFFD" by simp
      with True show ?thesis by simp
    next
      case False
      then have "scalarValues (c # d # ds) = unat c # scalarValues (d # ds)"
        using nothigh by simp
      then have "concat (map codeUnits (scalarValues (c # d # ds))) =
          [c] @ concat (map codeUnits (scalarValues (d # ds)))"
        by (simp only: list.map concat.simps codeUnits_single)
      with "3.prems" have "concat (map codeUnits (scalarValues (d # ds))) = d # ds" by simp
      then have "wellFormed (d # ds)"
        using "3.IH"(4) nothigh False by blast
      then show ?thesis using nothigh False by auto
    qed
  qed
qed

lemma textStable_iff:
  "textStable s \<longleftrightarrow> wellFormed s \<and> (s = [] \<or> hd s \<noteq> 0xFEFF)"
proof
  assume st: "textStable s"
  have nobom: "s = [] \<or> hd s \<noteq> 0xFEFF"
  proof (rule ccontr)
    assume "\<not> (s = [] \<or> hd s \<noteq> 0xFEFF)"
    then obtain cs where s: "s = 0xFEFF # cs" by (cases s) auto
    have "scalarValues s = 0xFEFF # scalarValues cs"
      unfolding s by (cases cs) simp_all
    then have "TextDecoder_decode (TextEncoder_encode s) = concat (map codeUnits (scalarValues cs))"
      by (simp add: decode_encode stripBOM_def)
    then have "length (TextDecoder_decode (TextEncoder_encode s)) = length cs"
      by (simp add: length_units)
    with st s show False by (simp add: textStable_def)
  qed
  with st have "concat (map codeUnits (scalarValues s)) = s"
    by (simp add: textStable_def decode_encode stripBOM_scalarValues)
  then have "wellFormed s" by (rule units_wellFormed)
  with nobom show "wellFormed s \<and> (s = [] \<or> hd s \<noteq> 0xFEFF)" by simp
next
  assume "wellFormed s \<and> (s = [] \<or> hd s \<noteq> 0xFEFF)"
  then show "textStable s" by (simp add: wellFormed_textStable)
qed

subsection \<open>Envelopes\<close>

lemma encrypt_Inr:
  assumes "encrypt S m b data = (Inr e, b')"
  obtains k ct where "key m = Some k"
    and "aesGcmEncrypt S k (fst (getRandomValues 12 b)) (TextEncoder_encode data) = Some ct"
    and "btoa (fromCharCode (fst (getRandomValues 12 b) @ ct)) = Some e"
    and "b' = snd (getRandomValues 12 b)"
  using assms
  by (auto simp: encrypt_def Let_def split: option.splits prod.splits)

lemma decrypt_envelope:
  assumes "key m = Some k" and "length iv = 12"
    and "btoa (fromCharCode (iv @ ct)) = Some e"
  shows "decrypt S m e =
           (case aesGcmDecrypt S k iv ct of
              None \<Rightarrow> Inl DecryptFailed
            | Some d \<Rightarrow> Inr (TextDecoder_decode d))"
  using assms
  by (simp add: decrypt_def atob_btoa [OF assms(3)] charCodes_fromCharCode)

lemma decrypt_encrypt_core:
  assumes "aesGcmCorrect S" and "encrypt S m b data = (Inr e, b')"
  shows "decrypt S m e = Inr (TextDecoder_decode (TextEncoder_encode data))"
proof -
  from assms(2) obtain k ct where k: "key m = Some k"
    and ct: "aesGcmEncrypt S k (fst (getRandomValues 12 b)) (TextEncoder_encode data) = Some ct"
    and e: "btoa (fromCharCode (fst (getRandomValues 12 b) @ ct)) = Some e"
    by (rule encrypt_Inr)
  from assms(1) ct
  have "aesGcmDecrypt S k (fst (getRandomValues 12 b)) ct = Some (TextEncoder_encode data)"
    by (simp add: aesGcmCorrect_def)
  then show ?thesis
    using decrypt_envelope [OF k getRandomValues_length e] by simp
qed

lemma envelope_nonce:
  assumes "length iv = 12" and "btoa (fromCharCode (iv @ ct)) = Some e"
  shows "map_option (\<lambda>bin. take 12 (charCodes bin)) (atob e) = Some iv"
  using assms by (simp add: atob_btoa [OF assms(2)] charCodes_fromCharCode)

lemma standIn_correct: "aesGcmCorrect standIn"
  by (simp add: aesGcmCorrect_def standIn_def standInTag_def)


subsection \<open>Unfolding short lists\<close>

lemma replicate_16: "replicate 16 x = [x, x, x, x, x, x, x, x, x, x, x, x, x, x, x, x]"
  by (simp add: numeral_eq_Suc)

lemma replicate_small: "replicate 1 x = [x]" "replicate 2 x = [x, x]"
  by (simp_all add: numeral_2_eq_2)

lemma upt_12: "[n ..< n + 12] = [n, n + 1, n + 2, n + 3, n + 4, n + 5, n + 6, n + 7, n + 8, n + 9, n + 10, n + 11]"
  by (simp add: numeral_eq_Suc upt_rec)

lemma upt_16: "[n ..< n + 16] = [n, n + 1, n + 2, n + 3, n + 4, n + 5, n + 6, n + 7, n + 8, n + 9,
   n + 10, n + 11, n + 12, n + 13, n + 14, n + 15]"
  by (simp add: numeral_eq_Suc upt_rec)

lemma getRandomValues_12:
  "getRandomValues 12 b =
     (map (\<lambda>i. randomTape b (randomPos b + i)) [0, 1, 2, 3, 4, 5, 6, 7, 8, 9, 10, 11],
      b\<lparr>randomPos := randomPos b + 12\<rparr>)"
  by (simp add: getRandomValues_def upt_12)

lemma getRandomValues_16:
  "getRandomValues 16 b =
     (map (\<lambda>i. randomTape b (randomPos b + i)) [0, 1, 2, 3, 4, 5, 6, 7, 8, 9, 10, 11, 12, 13, 14, 15],
      b\<lparr>randomPos := randomPos b + 16\<rparr>)"
  by (simp add: getRandomValues_def upt_16)

subsection \<open>The storage and initialize\<close>

lemma keys_distinct:
  "saltKey u \<noteq> testKey u" "saltKey u \<noteq> vaultKey u" "testKey u \<noteq> vaultKey u"
  "saltKey u \<noteq> str ''current_user''" "testKey u \<noteq> str ''current_user''"
  "vaultKey u \<noteq> str ''current_user''"
  "testKey u \<noteq> saltKey u" "vaultKey u \<noteq> saltKey u" "vaultKey u \<noteq> testKey u"
  "str ''current_user'' \<noteq> saltKey u" "str ''current_user'' \<noteq> testKey u"
  "str ''current_user'' \<noteq> vaultKey u"
  by (simp_all add: saltKey_def testKey_def vaultKey_def str_def)

lemma getItem_setItem: "getItem (setItem k v b) k' = (if k' = k then Some v else getItem b k')"
  by (simp add: getItem_def setItem_def)

lemma getItem_removeItem: "getItem (removeItem k b) k' = (if k' = k then None else getItem b k')"
  by (simp add: getItem_def removeItem_def)

lemma getItem_getRandomValues: "getItem (snd (getRandomValues n b)) k = getItem b k"
  by (simp add: getItem_def getRandomValues_def)

lemma getRandomValues_removeItem:
  "getRandomValues n (removeItem k b) =
     (fst (getRandomValues n b), removeItem k (snd (getRandomValues n b)))"
  by (simp add: getRandomValues_def removeItem_def)

text \<open>With a usable salt in the storage, \<^verbatim>\<open>initialize\<close> is its second half.\<close>

lemma initialize_stored:
  assumes "getItem b (saltKey uid) = Some salt" and "salt \<noteq> []"
    and "parseSalt salt = Some saltArray"
  shows "initialize S passphrase uid (m, b) =
     (let m1 = m\<lparr>key := Some (deriveKey S passphrase saltArray), userId := Some uid\<rparr>
      in case getItem b (testKey uid) of
           None \<Rightarrow>
             (case encrypt S m1 b testMessage of
                (Inl e, b2) \<Rightarrow> (False, m1, b2)
              | (Inr envelope, b2) \<Rightarrow> (True, m1, setItem (testKey uid) envelope b2))
         | Some t \<Rightarrow>
             if t = [] then
               (case encrypt S m1 b testMessage of
                  (Inl e, b2) \<Rightarrow> (False, m1, b2)
                | (Inr envelope, b2) \<Rightarrow> (True, m1, setItem (testKey uid) envelope b2))
             else
               (case decrypt S m1 t of
                  Inl e \<Rightarrow> (False, m1, b)
                | Inr decrypted \<Rightarrow> (decrypted = testMessage, m1, b)))"
  using assms by (simp add: initialize_def Let_def split: option.splits)

text \<open>Without one, it first stores a new salt and then goes on as if it had found it.\<close>

lemma initialize_fresh:
  assumes "\<not> truthy (getItem b (saltKey uid))"
  shows "initialize S passphrase uid (m, b) =
     initialize S passphrase uid
       (m, setItem (saltKey uid) (hexString (fst (getRandomValues 16 b)))
             (snd (getRandomValues 16 b)))"
proof -
  let ?sa = "fst (getRandomValues 16 b)"
  let ?b1 = "setItem (saltKey uid) (hexString ?sa) (snd (getRandomValues 16 b))"
  have sa: "?sa \<noteq> []"
    using getRandomValues_length [of 16 b] by auto
  then have ne: "hexString ?sa \<noteq> []"
    by (simp add: hexString_Nil_iff)
  have stored: "getItem ?b1 (saltKey uid) = Some (hexString ?sa)"
    by (simp add: getItem_setItem)
  have "initialize S passphrase uid (m, b) =
      (let m1 = m\<lparr>key := Some (deriveKey S passphrase ?sa), userId := Some uid\<rparr>;
           testData = getItem ?b1 (testKey uid)
       in if \<not> truthy testData then
            (case encrypt S m1 ?b1 testMessage of
               (Inl e, b2) \<Rightarrow> (False, m1, b2)
             | (Inr envelope, b2) \<Rightarrow> (True, m1, setItem (testKey uid) envelope b2))
          else
            (case testData of
               None \<Rightarrow> (False, m1, ?b1)
             | Some t \<Rightarrow>
                 (case decrypt S m1 t of
                    Inl e \<Rightarrow> (False, m1, ?b1)
                  | Inr decrypted \<Rightarrow> (decrypted = testMessage, m1, ?b1))))"
    using assms
    by (simp add: initialize_def case_prod_unfold parseSalt_hexString [OF sa] Let_def
        cong: option.case_cong sum.case_cong)
  moreover have "initialize S passphrase uid (m, ?b1) = \<dots>"
    using ne
    by (simp add: initialize_def stored parseSalt_hexString [OF sa] Let_def)
  ultimately show ?thesis by simp
qed

lemma decrypt_key_cong: "key m = key m' \<Longrightarrow> decrypt S m e = decrypt S m' e"
  by (simp add: decrypt_def)

lemma encrypt_storage:
  "encrypt S m b d = (r, b') \<Longrightarrow> localStorage b' = localStorage b \<and> randomTape b' = randomTape b"
  by (auto simp: encrypt_def getRandomValues_def Let_def split: option.splits)

lemma envelope_not_empty: "encrypt S m b d = (Inr e, b') \<Longrightarrow> e \<noteq> []"
proof -
  assume "encrypt S m b d = (Inr e, b')"
  then obtain k ct where e: "btoa (fromCharCode (fst (getRandomValues 12 b) @ ct)) = Some e"
    by (rule encrypt_Inr)
  have "fromCharCode (fst (getRandomValues 12 b) @ ct) \<noteq> []"
    using getRandomValues_length [of 12 b] by (auto simp: fromCharCode_def)
  with btoa_Nil_iff [OF e] show ?thesis by simp
qed

subsection \<open>createUserVault\<close>

lemma cleared_random:
  "fst (getRandomValues n (cleared uid b)) = fst (getRandomValues n b)"
  "snd (getRandomValues n (cleared uid b)) = cleared uid (snd (getRandomValues n b))"
  by (simp_all add: cleared_def getRandomValues_removeItem)

lemma getItem_cleared:
  "getItem (cleared uid b) k =
     (if k = saltKey uid \<or> k = testKey uid \<or> k = vaultKey uid then None else getItem b k)"
  by (simp add: cleared_def getItem_removeItem)

lemma createUserVault_eq:
  "createUserVault S passphrase uid (m, b) =
     (let fresh = fst (getRandomValues 16 b);
          b3 = setItem (saltKey uid) (hexString fresh) (cleared uid (snd (getRandomValues 16 b)));
          m1 = m\<lparr>key := Some (deriveKey S passphrase fresh), userId := Some uid\<rparr>
      in case encrypt S m1 b3 testMessage of
           (Inl e, b4) \<Rightarrow> (False, m1, b4)
         | (Inr envelope, b4) \<Rightarrow>
             (True, m1,
              setItem (str ''current_user'') uid
                (setItem (vaultKey uid) (str ''true'') (setItem (testKey uid) envelope b4))))"
proof -
  let ?fresh = "fst (getRandomValues 16 b)"
  let ?b3 = "setItem (saltKey uid) (hexString ?fresh) (cleared uid (snd (getRandomValues 16 b)))"
  have sa: "?fresh \<noteq> []"
    using getRandomValues_length [of 16 b] by auto
  then have ne: "hexString ?fresh \<noteq> []"
    by (simp add: hexString_Nil_iff)
  have stored: "getItem ?b3 (saltKey uid) = Some (hexString ?fresh)"
    by (simp add: getItem_setItem)
  have probe: "getItem ?b3 (testKey uid) = None"
    by (simp add: getItem_setItem getItem_cleared keys_distinct)
  have "createUserVault S passphrase uid (m, b) =
      (case initialize S passphrase uid (m, ?b3) of
         (success, m', b4) \<Rightarrow>
           if success
           then (success, m',
                 setItem (str ''current_user'') uid (setItem (vaultKey uid) (str ''true'') b4))
           else (success, m', b4))"
    by (simp add: createUserVault_def Let_def case_prod_unfold cleared_random
        cleared_def [symmetric])
  then show ?thesis
    by (simp add: initialize_stored [OF stored ne parseSalt_hexString [OF sa]] probe Let_def
        split: prod.splits sum.splits)
qed

lemma createUserVault_True:
  assumes "createUserVault S passphrase uid (m, b) = (True, m1, b1)"
  obtains envelope b3 b4 where
    "m1 = m\<lparr>key := Some (deriveKey S passphrase (fst (getRandomValues 16 b))), userId := Some uid\<rparr>"
    and "encrypt S m1 b3 testMessage = (Inr envelope, b4)"
    and "getItem b1 (saltKey uid) = Some (hexString (fst (getRandomValues 16 b)))"
    and "getItem b1 (testKey uid) = Some envelope"
    and "getItem b1 (vaultKey uid) = Some (str ''true'')"
proof -
  let ?fresh = "fst (getRandomValues 16 b)"
  let ?b3 = "setItem (saltKey uid) (hexString ?fresh) (cleared uid (snd (getRandomValues 16 b)))"
  let ?m1 = "m\<lparr>key := Some (deriveKey S passphrase ?fresh), userId := Some uid\<rparr>"
  obtain r b4 where enc: "encrypt S ?m1 ?b3 testMessage = (r, b4)"
    by (cases "encrypt S ?m1 ?b3 testMessage")
  with assms obtain envelope where r: "r = Inr envelope" and m1: "m1 = ?m1"
    and b1: "b1 = setItem (str ''current_user'') uid
                (setItem (vaultKey uid) (str ''true'') (setItem (testKey uid) envelope b4))"
    by (cases r) (auto simp: createUserVault_eq Let_def)
  have st: "localStorage b4 = localStorage ?b3"
    using encrypt_storage [OF enc] by simp
  show ?thesis
  proof (rule that)
    show "m1 = ?m1" by (rule m1)
    show "encrypt S m1 ?b3 testMessage = (Inr envelope, b4)"
      using enc r m1 by simp
    show "getItem b1 (saltKey uid) = Some (hexString ?fresh)"
      by (simp add: b1 getItem_def setItem_def st keys_distinct)
    show "getItem b1 (testKey uid) = Some envelope"
      by (simp add: b1 getItem_def setItem_def keys_distinct)
    show "getItem b1 (vaultKey uid) = Some (str ''true'')"
      by (simp add: b1 getItem_def setItem_def keys_distinct)
  qed
qed





subsection \<open>Notes\<close>

lemma encryptField_roundtrip:
  assumes "aesGcmCorrect S" and "encryptField S m b field = (Inr field', b')"
    and "fieldStable field"
  shows "decryptField S m field' = Inr field"
proof (cases field)
  case None
  with assms(2) show ?thesis by (simp add: encryptField_def decryptField_def)
next
  case (Some s)
  show ?thesis
  proof (cases "s = []")
    case True
    with Some assms(2) show ?thesis by (auto simp: encryptField_def decryptField_def)
  next
    case False
    with Some assms(2) obtain x where enc: "encrypt S m b s = (Inr x, b')" and f: "field' = Some x"
      by (auto simp: encryptField_def split: prod.splits sum.splits)
    have "decrypt S m x = Inr s"
      using decrypt_encrypt_core [OF assms(1) enc] assms(3) Some
      by (simp add: fieldStable_def textStable_def)
    then show ?thesis
      using envelope_not_empty [OF enc] by (simp add: decryptField_def f Some)
  qed
qed

lemma encryptAll_roundtrip:
  assumes "aesGcmCorrect S"
  shows "encryptAll S m b ts = (Inr es, b') \<Longrightarrow> list_all textStable ts \<Longrightarrow>
         decryptAll S m es = Inr ts \<and> list_all2 (\<lambda>e t. decrypt S m e = Inr t) es ts"
proof (induction ts arbitrary: b es b')
  case Nil
  then show ?case by simp
next
  case (Cons t ts)
  obtain r b1 where enc: "encrypt S m b t = (r, b1)"
    by (cases "encrypt S m b t")
  obtain rs b2 where rest: "encryptAll S m b1 ts = (rs, b2)"
    by (cases "encryptAll S m b1 ts")
  from Cons.prems(1) enc rest obtain x xs where r: "r = Inr x" and rs: "rs = Inr xs"
    and es: "es = x # xs"
    by (auto split: sum.splits)
  have "decrypt S m x = Inr t"
    using decrypt_encrypt_core [OF assms] enc r Cons.prems(2) by (simp add: textStable_def)
  moreover have "decryptAll S m xs = Inr ts \<and> list_all2 (\<lambda>e t. decrypt S m e = Inr t) xs ts"
    using Cons.IH [of b1 xs b2] rest rs Cons.prems(2) by simp
  ultimately show ?case by (simp add: es)
qed

lemma encryptTags_roundtrip:
  assumes "aesGcmCorrect S" and "encryptTags S m b ts = (Inr ts', b')"
    and "case ts of None \<Rightarrow> True | Some xs \<Rightarrow> list_all textStable xs"
  shows "decryptTags S m ts' = Inr ts"
proof (cases ts)
  case None
  with assms(2) show ?thesis by (simp add: encryptTags_def decryptTags_def)
next
  case (Some xs)
  show ?thesis
  proof (cases xs)
    case Nil
    with Some assms(2) show ?thesis by (auto simp: encryptTags_def decryptTags_def)
  next
    case (Cons t rest)
    with Some assms(2) obtain es where enc: "encryptAll S m b (t # rest) = (Inr es, b')"
      and ts': "ts' = Some es"
      by (auto simp: encryptTags_def split: prod.splits sum.splits)
    have "decryptAll S m es = Inr (t # rest)" and "list_all2 (\<lambda>e t. decrypt S m e = Inr t) es (t # rest)"
      using encryptAll_roundtrip [OF assms(1) enc] assms(3) Some Cons by simp_all
    then show ?thesis
      by (cases es) (simp_all add: decryptTags_def ts' Some Cons)
  qed
qed

subsection \<open>Running the model\<close>

text \<open>The equations that unfold a run of the model on concrete values.\<close>

lemmas run_defs =
  encrypt_def decrypt_def demoManager_def emptyBrowser_def standIn_def standInTag_def
  getRandomValues_12 getRandomValues_16 tape_def str_def TextEncoder_encode_def utf8Bytes_def
  btoa_def fromCharCode_def b64Padding_def b64Char_def replicate_16 replicate_small atob_def
  asciiWhitespace_def stripPadding_def b64Value_def charCodes_def Let_def
  TextDecoder_decode_def leadByte_def codeUnits_def stripBOM_def

text \<open>The validation constant is plain ASCII.\<close>

lemma testMessage_stable: "textStable testMessage"
  by (simp add: textStable_def testMessage_def run_defs)

text \<open>One run of \<^verbatim>\<open>encrypt\<close>, on the two code units 0x68 0xE9 with the first twelve bytes of the tape as IV.\<close>

lemma demo_encrypt:
  "encrypt standIn demoManager emptyBrowser [0x68, 0xE9] =
     (Inr (str ''BxQhLjtIVWJvfImWaMOpiIiIiIiIiIiIiIiIiIiIiA==''), emptyBrowser\<lparr>randomPos := 12\<rparr>)"
  by (simp add: run_defs)

lemma demo_textStable: "textStable [0x68, 0xE9]"
  by (simp add: textStable_def run_defs)

text \<open>The next run, with the next twelve bytes of the tape.\<close>

lemma demo_encrypt_again:
  "encrypt standIn demoManager (emptyBrowser\<lparr>randomPos := 12\<rparr>) [0x68, 0xE9] =
     (Inr (str ''o7C9ytfk8f4LGCUyaMOp2NjY2NjY2NjY2NjY2NjY2A==''), emptyBrowser\<lparr>randomPos := 24\<rparr>)"
  by (simp add: run_defs)

text \<open>Runs of \<^verbatim>\<open>initialize\<close> for the demo user.\<close>

lemma demo_parseSalt: "parseSalt (str ''0a0b'') = Some [10, 11]"
  by (simp add: parseSalt_def matchPairs_def lineTerminator_def parseInt16_def whiteSpace_def
      stripSign_def stripPrefix0x_def hexValue_def toUint8_def str_def)

lemma demo_saltBrowser:
  "getItem saltBrowser (saltKey demoUser) = Some (str ''0a0b'')"
  "\<not> truthy (getItem saltBrowser (testKey demoUser))"
  by (simp_all add: saltBrowser_def getItem_def setItem_def keys_distinct emptyBrowser_def)

lemma demo_probeBrowser:
  "getItem probeBrowser (saltKey demoUser) = Some (str ''0a0b'')"
  "getItem probeBrowser (testKey demoUser) =
     Some (str ''BxQhLjtIVWJvfImWa2V5X3ZhbGlkYXRpb25fdGVzdJycnJycnJycnJycnJycnJw='')"
  by (simp_all add: probeBrowser_def saltBrowser_def getItem_def setItem_def keys_distinct)

lemma demo_seal_probe:
  "encrypt standIn \<lparr>key = Some [112, 119, 10, 11], userId = Some demoUser\<rparr> saltBrowser testMessage =
     (Inr (str ''BxQhLjtIVWJvfImWa2V5X3ZhbGlkYXRpb25fdGVzdJycnJycnJycnJycnJycnJw=''),
      saltBrowser\<lparr>randomPos := 12\<rparr>)"
  by (simp add: saltBrowser_def setItem_def testMessage_def run_defs)

lemma demo_open_probe_wrong:
  "decrypt standIn \<lparr>key = Some [110, 111, 10, 11], userId = Some demoUser\<rparr>
     (str ''BxQhLjtIVWJvfImWa2V5X3ZhbGlkYXRpb25fdGVzdJycnJycnJycnJycnJycnJw='') = Inl DecryptFailed"
  by (simp add: run_defs)

lemma demo_deriveKey:
  "deriveKey standIn demoPassphrase [10, 11] = [112, 119, 10, 11]"
  "deriveKey standIn (str ''no'') [10, 11] = [110, 111, 10, 11]"
  by (simp_all add: deriveKey_def demoPassphrase_def run_defs)

lemma demo_tape16:
  "fst (getRandomValues 16 emptyBrowser) =
     [7, 20, 33, 46, 59, 72, 85, 98, 111, 124, 137, 150, 163, 176, 189, 202]"
  "snd (getRandomValues 16 emptyBrowser) = emptyBrowser\<lparr>randomPos := 16\<rparr>"
  by (simp_all add: getRandomValues_16 emptyBrowser_def tape_def)

lemma demo_hexString:
  "hexString [7, 20, 33, 46, 59, 72, 85, 98, 111, 124, 137, 150, 163, 176, 189, 202] =
     str ''0714212e3b4855626f7c8996a3b0bdca''"
  by (simp add: hexString_def toHex2_def hexDigit_def str_def)

lemma demo_first_run:
  "initialize standIn demoPassphrase demoUser (constructor, emptyBrowser) =
     (True,
      \<lparr>key = Some [112, 119, 7, 20, 33, 46, 59, 72, 85, 98, 111, 124, 137, 150, 163, 176, 189, 202],
       userId = Some demoUser\<rparr>,
      firstRunBrowser)"
proof -
  have no: "\<not> truthy (getItem emptyBrowser (saltKey demoUser))"
    by (simp add: getItem_def emptyBrowser_def)
  let ?b0 = "setItem (saltKey demoUser) (str ''0714212e3b4855626f7c8996a3b0bdca'')
               (emptyBrowser\<lparr>randomPos := 16\<rparr>)"
  have stored: "getItem ?b0 (saltKey demoUser) = Some (str ''0714212e3b4855626f7c8996a3b0bdca'')"
    by (simp add: getItem_setItem)
  have ne: "str ''0714212e3b4855626f7c8996a3b0bdca'' \<noteq> []"
    by (simp add: str_def)
  have parse: "parseSalt (str ''0714212e3b4855626f7c8996a3b0bdca'') =
      Some [7, 20, 33, 46, 59, 72, 85, 98, 111, 124, 137, 150, 163, 176, 189, 202]"
    using parseSalt_hexString [of "[7, 20, 33, 46, 59, 72, 85, 98, 111, 124, 137, 150, 163, 176, 189, 202]"]
    by (simp add: demo_hexString)
  have probe: "getItem ?b0 (testKey demoUser) = None"
    by (simp add: getItem_def setItem_def emptyBrowser_def keys_distinct)
  have k: "deriveKey standIn demoPassphrase [7, 20, 33, 46, 59, 72, 85, 98, 111, 124, 137, 150, 163, 176, 189, 202] =
      [112, 119, 7, 20, 33, 46, 59, 72, 85, 98, 111, 124, 137, 150, 163, 176, 189, 202]"
    by (simp add: deriveKey_def demoPassphrase_def run_defs)
  have seal: "encrypt standIn
      \<lparr>key = Some [112, 119, 7, 20, 33, 46, 59, 72, 85, 98, 111, 124, 137, 150, 163, 176, 189, 202],
       userId = Some demoUser\<rparr> ?b0 testMessage =
      (Inr (str ''1+Tx/gsYJTI/TFlma2V5X3ZhbGlkYXRpb25fdGVzdM/Pz8/Pz8/Pz8/Pz8/Pz88=''),
       ?b0\<lparr>randomPos := 28\<rparr>)"
    by (simp add: setItem_def testMessage_def run_defs)
  have "initialize standIn demoPassphrase demoUser (constructor, emptyBrowser) =
      initialize standIn demoPassphrase demoUser (constructor, ?b0)"
    by (simp add: initialize_fresh [OF no] demo_tape16 demo_hexString)
  also have "\<dots> =
      (True,
       \<lparr>key = Some [112, 119, 7, 20, 33, 46, 59, 72, 85, 98, 111, 124, 137, 150, 163, 176, 189, 202],
        userId = Some demoUser\<rparr>,
       setItem (testKey demoUser)
         (str ''1+Tx/gsYJTI/TFlma2V5X3ZhbGlkYXRpb25fdGVzdM/Pz8/Pz8/Pz8/Pz8/Pz88='')
         (?b0\<lparr>randomPos := 28\<rparr>))"
    by (simp add: initialize_stored [OF stored ne parse] probe k seal constructor_def)
  also have "setItem (testKey demoUser)
         (str ''1+Tx/gsYJTI/TFlma2V5X3ZhbGlkYXRpb25fdGVzdM/Pz8/Pz8/Pz8/Pz8/Pz88='')
         (?b0\<lparr>randomPos := 28\<rparr>) = firstRunBrowser"
    by (simp add: firstRunBrowser_def setItem_def)
  finally show ?thesis .
qed

lemma demo_firstRunBrowser:
  "getItem firstRunBrowser (saltKey demoUser) = Some (str ''0714212e3b4855626f7c8996a3b0bdca'')"
  "getItem firstRunBrowser (testKey demoUser) =
     Some (str ''1+Tx/gsYJTI/TFlma2V5X3ZhbGlkYXRpb25fdGVzdM/Pz8/Pz8/Pz8/Pz8/Pz88='')"
  by (simp_all add: firstRunBrowser_def getItem_def setItem_def keys_distinct)


text \<open>Runs of \<^verbatim>\<open>createUserVault\<close>.\<close>

lemma demo_seal_first:
  "encrypt standIn
      \<lparr>key = Some [112, 119, 7, 20, 33, 46, 59, 72, 85, 98, 111, 124, 137, 150, 163, 176, 189, 202],
       userId = Some demoUser\<rparr>
      (setItem (saltKey demoUser) (str ''0714212e3b4855626f7c8996a3b0bdca'')
         (emptyBrowser\<lparr>randomPos := 16\<rparr>)) testMessage =
      (Inr (str ''1+Tx/gsYJTI/TFlma2V5X3ZhbGlkYXRpb25fdGVzdM/Pz8/Pz8/Pz8/Pz8/Pz88=''),
       setItem (saltKey demoUser) (str ''0714212e3b4855626f7c8996a3b0bdca'')
         (emptyBrowser\<lparr>randomPos := 16\<rparr>)\<lparr>randomPos := 28\<rparr>)"
  by (simp add: setItem_def testMessage_def run_defs)

lemma cleared_emptyBrowser: "cleared uid (emptyBrowser\<lparr>randomPos := n\<rparr>) = emptyBrowser\<lparr>randomPos := n\<rparr>"
  by (simp add: cleared_def removeItem_def emptyBrowser_def)

lemma demo_create:
  "createUserVault standIn demoPassphrase demoUser (constructor, emptyBrowser) =
     (True, demoVaultManager, vaultBrowser)"
proof -
  have k: "deriveKey standIn demoPassphrase [7, 20, 33, 46, 59, 72, 85, 98, 111, 124, 137, 150, 163, 176, 189, 202] =
      [112, 119, 7, 20, 33, 46, 59, 72, 85, 98, 111, 124, 137, 150, 163, 176, 189, 202]"
    by (simp add: deriveKey_def demoPassphrase_def run_defs)
  show ?thesis
    by (simp add: createUserVault_eq demo_tape16 demo_hexString cleared_emptyBrowser k
        constructor_def demo_seal_first demoVaultManager_def)
      (simp add: vaultBrowser_def firstRunBrowser_def setItem_def)
qed





text \<open>Runs on notes.\<close>

lemmas note_defs =
  encryptNote_def decryptNote_def encryptField_def decryptField_def encryptTags_def
  decryptTags_def

lemma demo_bom:
  "encrypt standIn demoManager emptyBrowser [0xFEFF, 0x68, 0x69] =
     (Inr (str ''BxQhLjtIVWJvfImW77u/aGnu7u7u7u7u7u7u7u7u7u7u''), emptyBrowser\<lparr>randomPos := 12\<rparr>)"
  "decrypt standIn demoManager (str ''BxQhLjtIVWJvfImW77u/aGnu7u7u7u7u7u7u7u7u7u7u'') = Inr [0x68, 0x69]"
  "str ''BxQhLjtIVWJvfImW77u/aGnu7u7u7u7u7u7u7u7u7u7u'' \<noteq> []"
  by (simp_all add: run_defs)

lemma demo_encryptNote:
  "encryptNote standIn demoManager emptyBrowser
     \<lparr>title = Some [0x68, 0xE9], content = Some [], tags = Some [[0x68, 0xE9]], encrypted = None\<rparr> =
     (Inr \<lparr>title = Some (str ''BxQhLjtIVWJvfImWaMOpiIiIiIiIiIiIiIiIiIiIiA==''), content = Some [],
           tags = Some [str ''o7C9ytfk8f4LGCUyaMOp2NjY2NjY2NjY2NjY2NjY2A==''],
           encrypted = Some True\<rparr>,
      emptyBrowser\<lparr>randomPos := 24\<rparr>)"
  by (simp add: note_defs demo_encrypt demo_encrypt_again)

lemma demo_encryptNote_no_tags:
  "encryptNote standIn demoManager emptyBrowser
     \<lparr>title = Some [0x68, 0xE9], content = None, tags = Some [], encrypted = Some False\<rparr> =
     (Inr \<lparr>title = Some (str ''BxQhLjtIVWJvfImWaMOpiIiIiIiIiIiIiIiIiIiIiA==''), content = None,
           tags = Some [], encrypted = Some True\<rparr>,
      emptyBrowser\<lparr>randomPos := 12\<rparr>)"
  by (simp add: note_defs demo_encrypt)

section \<open>The claims about the module\<close>

text \<open>
  C1. With no salt stored for the user, \<^verbatim>\<open>initialize\<close> is claimed to fail, deriving
  no key and writing nothing. It does the opposite: on an empty storage it returns
  \<^verbatim>\<open>true\<close>, holds a key, and has stored a salt and a probe.
\<close>

theorem unlock_without_salt_counterexample:
  "getItem emptyBrowser (saltKey demoUser) = None \<and>
   initialize standIn demoPassphrase demoUser (constructor, emptyBrowser) =
     (True,
      \<lparr>key = Some [112, 119, 7, 20, 33, 46, 59, 72, 85, 98, 111, 124, 137, 150, 163, 176, 189, 202],
       userId = Some demoUser\<rparr>,
      firstRunBrowser) \<and>
   getItem firstRunBrowser (saltKey demoUser) = Some (str ''0714212e3b4855626f7c8996a3b0bdca'') \<and>
   getItem firstRunBrowser (testKey demoUser) =
     Some (str ''1+Tx/gsYJTI/TFlma2V5X3ZhbGlkYXRpb25fdGVzdM/Pz8/Pz8/Pz8/Pz8/Pz88='')"
  by (simp add: demo_first_run demo_firstRunBrowser) (simp add: getItem_def emptyBrowser_def)

text \<open>
  C1, amended. With no salt stored for the user (\<^verbatim>\<open>null\<close> or the empty string),
  \<^verbatim>\<open>initialize\<close> draws sixteen random bytes, stores them in hexadecimal under
  \<^verbatim>\<open>app_salt_\<close> and the user id, derives the key from the passphrase and those bytes
  and keeps it, so that \<^verbatim>\<open>isInitialized()\<close> holds afterwards; when no probe is stored
  either and the seal succeeds, it stores the probe and returns \<^verbatim>\<open>true\<close>.
\<close>

theorem initialize_without_salt:
  assumes "\<not> truthy (getItem b (saltKey uid))"
    and "saltArray = fst (getRandomValues 16 b)"
    and "b0 = setItem (saltKey uid) (hexString saltArray) (snd (getRandomValues 16 b))"
    and "initialize S passphrase uid (m, b) = (ok, m', b')"
  shows "m' = m\<lparr>key := Some (deriveKey S passphrase saltArray), userId := Some uid\<rparr> \<and>
         isInitialized m' \<and>
         getItem b' (saltKey uid) = Some (hexString saltArray) \<and>
         (\<not> truthy (getItem b (testKey uid)) \<and> encrypt S m' b0 testMessage = (Inr envelope, b2) \<longrightarrow>
            ok \<and> b' = setItem (testKey uid) envelope b2)"
proof -
  let ?m1 = "m\<lparr>key := Some (deriveKey S passphrase saltArray), userId := Some uid\<rparr>"
  have sa: "saltArray \<noteq> []"
    using getRandomValues_length [of 16 b] assms(2) by auto
  have stored: "getItem b0 (saltKey uid) = Some (hexString saltArray)"
    by (simp add: assms(3) getItem_setItem)
  have ne: "hexString saltArray \<noteq> []"
    using sa by (simp add: hexString_Nil_iff)
  have probe: "getItem b0 (testKey uid) = getItem b (testKey uid)"
    by (simp add: assms(3) getItem_setItem keys_distinct getItem_getRandomValues)
  have run: "initialize S passphrase uid (m, b0) = (ok, m', b')"
    using initialize_fresh [OF assms(1), of S passphrase m] assms(2-4) by simp
  note unfolded = run [unfolded initialize_stored [OF stored ne parseSalt_hexString [OF sa]] Let_def]
  have m': "m' = ?m1"
    using unfolded by (auto split: option.splits if_splits sum.splits prod.splits)
  have salt': "getItem b' (saltKey uid) = Some (hexString saltArray)"
    using unfolded stored
    by (auto simp: getItem_def setItem_def keys_distinct
        split: option.splits if_splits sum.splits prod.splits dest!: encrypt_storage)
  have boot: "ok \<and> b' = setItem (testKey uid) envelope b2"
    if "\<not> truthy (getItem b (testKey uid))" "encrypt S m' b0 testMessage = (Inr envelope, b2)"
    using unfolded that probe m'
    by (cases "getItem b (testKey uid)") (auto split: if_splits)
  from m' salt' boot show ?thesis
    by (simp add: isInitialized_def)
qed

theorem initialize_without_salt_witness:
  "\<not> truthy (getItem emptyBrowser (saltKey demoUser)) \<and>
   initialize standIn demoPassphrase demoUser (constructor, emptyBrowser) =
     (True,
      \<lparr>key = Some [112, 119, 7, 20, 33, 46, 59, 72, 85, 98, 111, 124, 137, 150, 163, 176, 189, 202],
       userId = Some demoUser\<rparr>,
      firstRunBrowser) \<and>
   isInitialized
     \<lparr>key = Some [112, 119, 7, 20, 33, 46, 59, 72, 85, 98, 111, 124, 137, 150, 163, 176, 189, 202 :: byte],
      userId = Some demoUser\<rparr> \<and>
   getItem firstRunBrowser (saltKey demoUser) =
     Some (hexString [7, 20, 33, 46, 59, 72, 85, 98, 111, 124, 137, 150, 163, 176, 189, 202])"
proof -
  have no: "\<not> truthy (getItem emptyBrowser (saltKey demoUser))"
    by (simp add: getItem_def emptyBrowser_def)
  show ?thesis
    using initialize_without_salt [OF no refl refl demo_first_run, where envelope = "[]" and ?b2.0 = emptyBrowser]
      no demo_first_run
    by (simp add: demo_tape16 demo_hexString demo_firstRunBrowser isInitialized_def)
qed




text \<open>
  C3. When the storage holds a salt for the user and no probe, \<^verbatim>\<open>initialize\<close> seals
  the validation constant under the key it has just derived from the candidate
  passphrase, stores that envelope as the probe and returns \<^verbatim>\<open>true\<close>. When a probe
  is stored, nothing is written: the result is whether the stored probe opens to the
  constant. Here the salt is any stored text that \<^verbatim>\<open>match\<close> can split, as every salt
  the module writes is, and the seal is one that succeeds.
\<close>

theorem probe_bootstrap:
  assumes "getItem b (saltKey uid) = Some salt" and "salt \<noteq> []"
    and "parseSalt salt = Some saltArray"
    and "m1 = m\<lparr>key := Some (deriveKey S passphrase saltArray), userId := Some uid\<rparr>"
  shows "(\<not> truthy (getItem b (testKey uid)) \<and> encrypt S m1 b testMessage = (Inr envelope, b2) \<longrightarrow>
            initialize S passphrase uid (m, b) = (True, m1, setItem (testKey uid) envelope b2)) \<and>
         (getItem b (testKey uid) = Some t \<and> t \<noteq> [] \<longrightarrow>
            initialize S passphrase uid (m, b) = (decrypt S m1 t = Inr testMessage, m1, b))"
proof (intro conjI impI)
  assume "\<not> truthy (getItem b (testKey uid)) \<and> encrypt S m1 b testMessage = (Inr envelope, b2)"
  then show "initialize S passphrase uid (m, b) = (True, m1, setItem (testKey uid) envelope b2)"
    using assms(4) by (cases "getItem b (testKey uid)") (auto simp: initialize_stored [OF assms(1-3)])
next
  assume "getItem b (testKey uid) = Some t \<and> t \<noteq> []"
  then show "initialize S passphrase uid (m, b) = (decrypt S m1 t = Inr testMessage, m1, b)"
    using assms(4) by (auto simp: initialize_stored [OF assms(1-3)] Let_def split: sum.splits)
qed

theorem probe_bootstrap_witness:
  "getItem saltBrowser (saltKey demoUser) = Some (str ''0a0b'') \<and>
   parseSalt (str ''0a0b'') = Some [10, 11] \<and>
   \<not> truthy (getItem saltBrowser (testKey demoUser)) \<and>
   encrypt standIn \<lparr>key = Some [112, 119, 10, 11], userId = Some demoUser\<rparr> saltBrowser testMessage =
     (Inr (str ''BxQhLjtIVWJvfImWa2V5X3ZhbGlkYXRpb25fdGVzdJycnJycnJycnJycnJycnJw=''),
      saltBrowser\<lparr>randomPos := 12\<rparr>) \<and>
   initialize standIn demoPassphrase demoUser (constructor, saltBrowser) =
     (True, \<lparr>key = Some [112, 119, 10, 11], userId = Some demoUser\<rparr>, probeBrowser) \<and>
   getItem probeBrowser (testKey demoUser) =
     Some (str ''BxQhLjtIVWJvfImWa2V5X3ZhbGlkYXRpb25fdGVzdJycnJycnJycnJycnJycnJw='') \<and>
   initialize standIn (str ''no'') demoUser (constructor, probeBrowser) =
     (False, \<lparr>key = Some [110, 111, 10, 11], userId = Some demoUser\<rparr>, probeBrowser)"
proof -
  have ne: "str ''0a0b'' \<noteq> []" by (simp add: str_def)
  have m1: "\<lparr>key = Some [112, 119, 10, 11], userId = Some demoUser\<rparr> =
      constructor\<lparr>key := Some (deriveKey standIn demoPassphrase [10, 11]), userId := Some demoUser\<rparr>"
    by (simp add: constructor_def demo_deriveKey)
  have m2: "\<lparr>key = Some [110, 111, 10, 11], userId = Some demoUser\<rparr> =
      constructor\<lparr>key := Some (deriveKey standIn (str ''no'') [10, 11]), userId := Some demoUser\<rparr>"
    by (simp add: constructor_def demo_deriveKey)
  have t: "str ''BxQhLjtIVWJvfImWa2V5X3ZhbGlkYXRpb25fdGVzdJycnJycnJycnJycnJycnJw='' \<noteq> []"
    by (simp add: str_def)
  show ?thesis
    using probe_bootstrap [OF demo_saltBrowser(1) ne demo_parseSalt m1,
        of "str ''BxQhLjtIVWJvfImWa2V5X3ZhbGlkYXRpb25fdGVzdJycnJycnJycnJycnJycnJw=''"
           "saltBrowser\<lparr>randomPos := 12\<rparr>"]
      probe_bootstrap [OF demo_probeBrowser(1) ne demo_parseSalt m2,
        of _ _ "str ''BxQhLjtIVWJvfImWa2V5X3ZhbGlkYXRpb25fdGVzdJycnJycnJycnJycnJycnJw=''"]
      demo_saltBrowser demo_parseSalt demo_seal_probe demo_probeBrowser demo_open_probe_wrong t
    by (simp add: probeBrowser_def)
qed

text \<open>
  C4. After a \<^verbatim>\<open>createUserVault\<close> that returned \<^verbatim>\<open>true\<close>, \<^verbatim>\<open>initialize\<close> with the
  same passphrase and user, on the storage as creation left it and from any state of
  the instance, returns \<^verbatim>\<open>true\<close> and holds the key that creation held: both derive
  it from the passphrase and the salt stored at creation. A text sealed right after
  creation opens right after the unlock.
\<close>

theorem create_then_unlock:
  assumes "aesGcmCorrect S"
    and "createUserVault S passphrase uid (m, b) = (True, m1, b1)"
    and "localStorage b2 = localStorage b1"
  shows "initialize S passphrase uid (m2, b2) = (True, m2\<lparr>key := key m1, userId := Some uid\<rparr>, b2) \<and>
         key m1 = Some (deriveKey S passphrase (fst (getRandomValues 16 b))) \<and>
         (textStable data \<and> encrypt S m1 bx data = (Inr e, bx') \<longrightarrow>
            decrypt S (m2\<lparr>key := key m1, userId := Some uid\<rparr>) e = Inr data)"
proof -
  let ?fresh = "fst (getRandomValues 16 b)"
  from assms(2) obtain envelope b3 b4 where
    m1: "m1 = m\<lparr>key := Some (deriveKey S passphrase ?fresh), userId := Some uid\<rparr>"
    and seal: "encrypt S m1 b3 testMessage = (Inr envelope, b4)"
    and salt: "getItem b1 (saltKey uid) = Some (hexString ?fresh)"
    and probe: "getItem b1 (testKey uid) = Some envelope"
    by (rule createUserVault_True)
  have k: "key m1 = Some (deriveKey S passphrase ?fresh)"
    by (simp add: m1)
  let ?m3 = "m2\<lparr>key := key m1, userId := Some uid\<rparr>"
  have m3: "?m3 = m2\<lparr>key := Some (deriveKey S passphrase ?fresh), userId := Some uid\<rparr>"
    by (simp add: k)
  have sa: "?fresh \<noteq> []"
    using getRandomValues_length [of 16 b] by auto
  then have ne: "hexString ?fresh \<noteq> []"
    by (simp add: hexString_Nil_iff)
  have salt2: "getItem b2 (saltKey uid) = Some (hexString ?fresh)"
    and probe2: "getItem b2 (testKey uid) = Some envelope"
    using salt probe assms(3) by (simp_all add: getItem_def)
  have "decrypt S m1 envelope = Inr testMessage"
    using decrypt_encrypt_core [OF assms(1) seal] testMessage_stable
    by (simp add: textStable_def)
  then have opens: "decrypt S ?m3 envelope = Inr testMessage"
    using decrypt_key_cong [of ?m3 m1 S envelope] by simp
  have "initialize S passphrase uid (m2, b2) = (True, ?m3, b2)"
    using envelope_not_empty [OF seal] opens
    by (simp add: initialize_stored [OF salt2 ne parseSalt_hexString [OF sa]] probe2 Let_def
        m3 [symmetric])
  moreover have "decrypt S ?m3 e = Inr data"
    if "textStable data" "encrypt S m1 bx data = (Inr e, bx')"
  proof -
    have "decrypt S m1 e = Inr data"
      using decrypt_encrypt_core [OF assms(1) that(2)] that(1) by (simp add: textStable_def)
    then show ?thesis
      using decrypt_key_cong [of ?m3 m1 S e] by simp
  qed
  ultimately show ?thesis
    using k by blast
qed

theorem create_then_unlock_witness:
  "aesGcmCorrect standIn \<and>
   createUserVault standIn demoPassphrase demoUser (constructor, emptyBrowser) =
     (True, demoVaultManager, vaultBrowser) \<and>
   initialize standIn demoPassphrase demoUser (clear demoVaultManager, vaultBrowser) =
     (True, demoVaultManager, vaultBrowser) \<and>
   isInitialized demoVaultManager"
  using create_then_unlock [OF standIn_correct demo_create refl, of "clear demoVaultManager" "[]" emptyBrowser "[]" emptyBrowser]
    standIn_correct demo_create
  by (simp add: clear_def demoVaultManager_def isInitialized_def)

text \<open>
  C5. \<^verbatim>\<open>decrypt\<close> of what \<^verbatim>\<open>encrypt\<close> returned, under the same key, gives the
  plaintext back. As stated, for every string, this fails: \<^verbatim>\<open>TextDecoder\<close> drops a
  leading U+FEFF, so the text U+FEFF "hi" is sealed and opens as "hi".
\<close>

theorem open_seal_counterexample:
  "encrypt standIn demoManager emptyBrowser [0xFEFF, 0x68, 0x69] =
     (Inr (str ''BxQhLjtIVWJvfImW77u/aGnu7u7u7u7u7u7u7u7u7u7u''), emptyBrowser\<lparr>randomPos := 12\<rparr>) \<and>
   decrypt standIn demoManager (str ''BxQhLjtIVWJvfImW77u/aGnu7u7u7u7u7u7u7u7u7u7u'') = Inr [0x68, 0x69]"
  by (simp add: run_defs)

text \<open>
  C5, amended. For every key and every plaintext that \<^verbatim>\<open>TextEncoder\<close> and
  \<^verbatim>\<open>TextDecoder\<close> reproduce, the envelope that \<^verbatim>\<open>encrypt\<close> returned opens, under
  the same key, to exactly that plaintext. By \<open>textStable_iff\<close> those are the
  plaintexts without an unpaired surrogate that do not start with U+FEFF; for every
  other one the envelope opens to another text (\<open>decrypt_encrypt_core\<close>).
\<close>

theorem open_seal:
  assumes "aesGcmCorrect S" and "textStable data" and "encrypt S m b data = (Inr e, b')"
  shows "decrypt S m e = Inr data"
  using decrypt_encrypt_core [OF assms(1) assms(3)] assms(2) by (simp add: textStable_def)

theorem open_seal_witness:
  "aesGcmCorrect standIn \<and> textStable [0x68, 0xE9] \<and>
   encrypt standIn demoManager emptyBrowser [0x68, 0xE9] =
     (Inr (str ''BxQhLjtIVWJvfImWaMOpiIiIiIiIiIiIiIiIiIiIiA==''), emptyBrowser\<lparr>randomPos := 12\<rparr>) \<and>
   decrypt standIn demoManager (str ''BxQhLjtIVWJvfImWaMOpiIiIiIiIiIiIiIiIiIiIiA=='') = Inr [0x68, 0xE9]"
  using open_seal [OF standIn_correct demo_textStable demo_encrypt]
    standIn_correct demo_textStable demo_encrypt
  by simp



text \<open>
  C7. Two calls of \<^verbatim>\<open>encrypt\<close> with the same key and the same plaintext, whose
  draws from the random source differ, return different envelopes: each envelope
  starts with the twelve bytes (96 bits) its call drew, and both open to the same
  plaintext.
\<close>

theorem seal_twice:
  assumes "aesGcmCorrect S"
    and "encrypt S m b1 data = (Inr e1, b1')"
    and "encrypt S m b2 data = (Inr e2, b2')"
    and "fst (getRandomValues 12 b1) \<noteq> fst (getRandomValues 12 b2)"
  shows "e1 \<noteq> e2 \<and>
         map_option (\<lambda>bin. take 12 (charCodes bin)) (atob e1) = Some (fst (getRandomValues 12 b1)) \<and>
         map_option (\<lambda>bin. take 12 (charCodes bin)) (atob e2) = Some (fst (getRandomValues 12 b2)) \<and>
         decrypt S m e1 = Inr (TextDecoder_decode (TextEncoder_encode data)) \<and>
         decrypt S m e2 = Inr (TextDecoder_decode (TextEncoder_encode data))"
proof -
  from assms(2) obtain k1 ct1 where
    e1: "btoa (fromCharCode (fst (getRandomValues 12 b1) @ ct1)) = Some e1"
    by (rule encrypt_Inr)
  from assms(3) obtain k2 ct2 where
    e2: "btoa (fromCharCode (fst (getRandomValues 12 b2) @ ct2)) = Some e2"
    by (rule encrypt_Inr)
  have n1: "map_option (\<lambda>bin. take 12 (charCodes bin)) (atob e1) = Some (fst (getRandomValues 12 b1))"
    by (rule envelope_nonce [OF getRandomValues_length e1])
  have n2: "map_option (\<lambda>bin. take 12 (charCodes bin)) (atob e2) = Some (fst (getRandomValues 12 b2))"
    by (rule envelope_nonce [OF getRandomValues_length e2])
  from n1 n2 assms(4) have "e1 \<noteq> e2" by auto
  moreover note n1 n2 decrypt_encrypt_core [OF assms(1) assms(2)]
    decrypt_encrypt_core [OF assms(1) assms(3)]
  ultimately show ?thesis by simp
qed

theorem seal_twice_witness:
  "aesGcmCorrect standIn \<and>
   encrypt standIn demoManager emptyBrowser [0x68, 0xE9] =
     (Inr (str ''BxQhLjtIVWJvfImWaMOpiIiIiIiIiIiIiIiIiIiIiA==''), emptyBrowser\<lparr>randomPos := 12\<rparr>) \<and>
   encrypt standIn demoManager (emptyBrowser\<lparr>randomPos := 12\<rparr>) [0x68, 0xE9] =
     (Inr (str ''o7C9ytfk8f4LGCUyaMOp2NjY2NjY2NjY2NjY2NjY2A==''), emptyBrowser\<lparr>randomPos := 24\<rparr>) \<and>
   fst (getRandomValues 12 emptyBrowser) \<noteq> fst (getRandomValues 12 (emptyBrowser\<lparr>randomPos := 12\<rparr>)) \<and>
   str ''BxQhLjtIVWJvfImWaMOpiIiIiIiIiIiIiIiIiIiIiA=='' \<noteq> str ''o7C9ytfk8f4LGCUyaMOp2NjY2NjY2NjY2NjY2NjY2A=='' \<and>
   decrypt standIn demoManager (str ''BxQhLjtIVWJvfImWaMOpiIiIiIiIiIiIiIiIiIiIiA=='') = Inr [0x68, 0xE9] \<and>
   decrypt standIn demoManager (str ''o7C9ytfk8f4LGCUyaMOp2NjY2NjY2NjY2NjY2NjY2A=='') = Inr [0x68, 0xE9]"
proof -
  have d: "fst (getRandomValues 12 emptyBrowser) \<noteq> fst (getRandomValues 12 (emptyBrowser\<lparr>randomPos := 12\<rparr>))"
    by (simp add: getRandomValues_12 emptyBrowser_def tape_def)
  have t: "TextDecoder_decode (TextEncoder_encode [0x68, 0xE9]) = [0x68, 0xE9]"
    using demo_textStable by (simp add: textStable_def)
  show ?thesis
    using seal_twice [OF standIn_correct demo_encrypt demo_encrypt_again d]
      standIn_correct demo_encrypt demo_encrypt_again d t
    by simp
qed

text \<open>
  C8. \<^verbatim>\<open>decryptNote\<close> of \<^verbatim>\<open>encryptNote\<close> is claimed to give back the title, the
  content and the tags of every note. A title that starts with U+FEFF comes back
  without it.
\<close>

theorem note_roundtrip_counterexample:
  "encryptNote standIn demoManager emptyBrowser
     \<lparr>title = Some [0xFEFF, 0x68, 0x69], content = None, tags = Some [], encrypted = None\<rparr> =
     (Inr \<lparr>title = Some (str ''BxQhLjtIVWJvfImW77u/aGnu7u7u7u7u7u7u7u7u7u7u''), content = None,
           tags = Some [], encrypted = Some True\<rparr>,
      emptyBrowser\<lparr>randomPos := 12\<rparr>) \<and>
   decryptNote standIn demoManager
     \<lparr>title = Some (str ''BxQhLjtIVWJvfImW77u/aGnu7u7u7u7u7u7u7u7u7u7u''), content = None,
      tags = Some [], encrypted = Some True\<rparr> =
     Inr \<lparr>title = Some [0x68, 0x69], content = None, tags = Some [], encrypted = Some False\<rparr>"
  by (simp add: note_defs demo_bom)

text \<open>
  C8, amended. For every note whose title, content and tags are texts that
  \<^verbatim>\<open>TextEncoder\<close> and \<^verbatim>\<open>TextDecoder\<close> reproduce (non-ASCII text and an empty tag
  list included), \<^verbatim>\<open>decryptNote\<close> of what \<^verbatim>\<open>encryptNote\<close> returned, under the same
  key, is the note again, with \<^verbatim>\<open>encrypted\<close> set to \<^verbatim>\<open>false\<close> and every other
  property as it was. The title, the content and each tag have an envelope of their
  own, and each opens by itself to its text.
\<close>

theorem note_roundtrip:
  assumes "aesGcmCorrect S" and "noteStable n"
    and "encryptNote S m b n = (Inr en, b')"
  shows "decryptNote S m en = Inr (n\<lparr>encrypted := Some False\<rparr>) \<and>
         encrypted en = Some True \<and>
         decryptField S m (title en) = Inr (title n) \<and>
         decryptField S m (content en) = Inr (content n) \<and>
         (case tags n of
            None \<Rightarrow> tags en = None
          | Some ts \<Rightarrow>
              (case tags en of
                 None \<Rightarrow> False
               | Some es \<Rightarrow> list_all2 (\<lambda>e t. decrypt S m e = Inr t) es ts))"
proof -
  from assms(3) obtain t b1 c b2 ts where
    ft: "encryptField S m b (title n) = (Inr t, b1)"
    and fc: "encryptField S m b1 (content n) = (Inr c, b2)"
    and fts: "encryptTags S m b2 (tags n) = (Inr ts, b')"
    and en: "en = n\<lparr>title := t, content := c, tags := ts, encrypted := Some True\<rparr>"
    by (auto simp: encryptNote_def split: prod.splits sum.splits)
  from assms(2) have st: "fieldStable (title n)" "fieldStable (content n)"
    "case tags n of None \<Rightarrow> True | Some xs \<Rightarrow> list_all textStable xs"
    by (simp_all add: noteStable_def)
  have dt: "decryptField S m t = Inr (title n)"
    by (rule encryptField_roundtrip [OF assms(1) ft st(1)])
  have dc: "decryptField S m c = Inr (content n)"
    by (rule encryptField_roundtrip [OF assms(1) fc st(2)])
  have dts: "decryptTags S m ts = Inr (tags n)"
    by (rule encryptTags_roundtrip [OF assms(1) fts st(3)])
  have sel: "title en = t" "content en = c" "tags en = ts" "encrypted en = Some True"
    by (simp_all add: en)
  have each: "case tags n of
            None \<Rightarrow> tags en = None
          | Some xs \<Rightarrow>
              (case tags en of
                 None \<Rightarrow> False
               | Some es \<Rightarrow> list_all2 (\<lambda>e t. decrypt S m e = Inr t) es xs)"
  proof (cases "tags n")
    case None
    with fts have "ts = None" by (auto simp: encryptTags_def)
    with None show ?thesis by (simp add: sel)
  next
    case (Some xs)
    show ?thesis
    proof (cases xs)
      case Nil
      with Some fts have "ts = Some []" by (auto simp: encryptTags_def)
      with Some Nil show ?thesis by (simp add: sel)
    next
      case (Cons x rest)
      with Some fts obtain es where enc: "encryptAll S m b2 (x # rest) = (Inr es, b')"
        and ts: "ts = Some es"
        by (auto simp: encryptTags_def split: prod.splits sum.splits)
      show ?thesis
        using encryptAll_roundtrip [OF assms(1) enc] st(3) Some Cons ts by (simp add: sel)
    qed
  qed
  have "decryptNote S m en = Inr (n\<lparr>encrypted := Some False\<rparr>)"
    by (simp add: decryptNote_def en dt dc dts)
  moreover have "decryptField S m (title en) = Inr (title n)"
    "decryptField S m (content en) = Inr (content n)"
    using dt dc by (simp_all add: sel)
  ultimately show ?thesis
    using each sel(4) by blast
qed

theorem note_roundtrip_witness:
  "aesGcmCorrect standIn \<and>
   noteStable \<lparr>title = Some [0x68, 0xE9], content = Some [], tags = Some [[0x68, 0xE9]],
               encrypted = None\<rparr> \<and>
   encryptNote standIn demoManager emptyBrowser
     \<lparr>title = Some [0x68, 0xE9], content = Some [], tags = Some [[0x68, 0xE9]], encrypted = None\<rparr> =
     (Inr \<lparr>title = Some (str ''BxQhLjtIVWJvfImWaMOpiIiIiIiIiIiIiIiIiIiIiA==''), content = Some [],
           tags = Some [str ''o7C9ytfk8f4LGCUyaMOp2NjY2NjY2NjY2NjY2NjY2A==''],
           encrypted = Some True\<rparr>,
      emptyBrowser\<lparr>randomPos := 24\<rparr>) \<and>
   decryptNote standIn demoManager
     \<lparr>title = Some (str ''BxQhLjtIVWJvfImWaMOpiIiIiIiIiIiIiIiIiIiIiA==''), content = Some [],
      tags = Some [str ''o7C9ytfk8f4LGCUyaMOp2NjY2NjY2NjY2NjY2NjY2A==''], encrypted = Some True\<rparr> =
     Inr \<lparr>title = Some [0x68, 0xE9], content = Some [], tags = Some [[0x68, 0xE9]],
          encrypted = Some False\<rparr> \<and>
   noteStable \<lparr>title = Some [0x68, 0xE9], content = None, tags = Some [], encrypted = Some False\<rparr> \<and>
   encryptNote standIn demoManager emptyBrowser
     \<lparr>title = Some [0x68, 0xE9], content = None, tags = Some [], encrypted = Some False\<rparr> =
     (Inr \<lparr>title = Some (str ''BxQhLjtIVWJvfImWaMOpiIiIiIiIiIiIiIiIiIiIiA==''), content = None,
           tags = Some [], encrypted = Some True\<rparr>,
      emptyBrowser\<lparr>randomPos := 12\<rparr>) \<and>
   decryptNote standIn demoManager
     \<lparr>title = Some (str ''BxQhLjtIVWJvfImWaMOpiIiIiIiIiIiIiIiIiIiIiA==''), content = None,
      tags = Some [], encrypted = Some True\<rparr> =
     Inr \<lparr>title = Some [0x68, 0xE9], content = None, tags = Some [], encrypted = Some False\<rparr>"
proof -
  have e: "textStable []"
    by (simp add: textStable_def run_defs)
  have s1: "noteStable \<lparr>title = Some [0x68, 0xE9], content = Some [], tags = Some [[0x68, 0xE9]],
               encrypted = None\<rparr>"
    by (simp add: noteStable_def fieldStable_def demo_textStable e)
  have s2: "noteStable \<lparr>title = Some [0x68, 0xE9], content = None, tags = Some [],
               encrypted = Some False\<rparr>"
    by (simp add: noteStable_def fieldStable_def demo_textStable)
  show ?thesis
    using note_roundtrip [OF standIn_correct s1 demo_encryptNote]
      note_roundtrip [OF standIn_correct s2 demo_encryptNote_no_tags]
      standIn_correct s1 s2 demo_encryptNote demo_encryptNote_no_tags
    by simp
qed

text \<open>
  C9. A note whose \<^verbatim>\<open>encrypted\<close> property is false or missing comes back from
  \<^verbatim>\<open>decryptNote\<close> as it went in, whatever the state of the key, even without one.
\<close>

theorem decryptNote_passthrough:
  "encrypted n = None \<or> encrypted n = Some False \<Longrightarrow> decryptNote S m n = Inr n"
  by (auto simp: decryptNote_def)

theorem decryptNote_passthrough_witness:
  "encrypted \<lparr>title = Some (str ''Groceries''), content = Some (str ''milk, eggs''),
              tags = Some [str ''home''], encrypted = Some False\<rparr> = Some False \<and>
   decryptNote standIn demoManager
     \<lparr>title = Some (str ''Groceries''), content = Some (str ''milk, eggs''),
      tags = Some [str ''home''], encrypted = Some False\<rparr> =
   Inr \<lparr>title = Some (str ''Groceries''), content = Some (str ''milk, eggs''),
        tags = Some [str ''home''], encrypted = Some False\<rparr>"
  using decryptNote_passthrough
    [of "\<lparr>title = Some (str ''Groceries''), content = Some (str ''milk, eggs''),
         tags = Some [str ''home''], encrypted = Some False\<rparr>" standIn demoManager]
  by simp



end
